theory Spec2Isabelle
  imports Complex_Main "HOL-Library.Word"
begin

section \<open>A light meter for film cameras\<close>

text \<open>
  The embedding follows the component \<open>App.js\<close> in its latest form, the one with the
  AE lock, the configurable smoothing factor and the two colour channel modes. The zone
  overlay of the histogram exists only in the earlier form kept as \<open>src/src/App.js\<close> and
  is taken from there. Both forms have the same \<open>calculateEffectiveEV\<close> and the same two
  resolvers, up to the constant \<open>referenceEV\<close> (7 in the former, 6 in the latter).
\<close>

section \<open>Rounding to binary64\<close>

text \<open>
  A finite JavaScript number is a binary64 value: a whole multiple \<open>m * 2 ^ j\<close> with
  \<open>\<bar>m\<bar> \<le> 2 ^ 53\<close> and \<open>j \<ge> -1074\<close>, of magnitude below \<open>2 ^ 1024\<close>. The predicate
  \<open>isDouble\<close> is that set without the bound on the magnitude.
\<close>

definition isDouble :: "real \<Rightarrow> bool" where
  "isDouble x \<longleftrightarrow> (\<exists>m j. \<bar>m\<bar> \<le> 2 ^ 53 \<and> - 1074 \<le> j \<and> x = of_int m * 2 powi j)"

text \<open>
  The exponent of the binade of \<open>x\<close>, not below that of the subnormal numbers; the whole
  number nearest to \<open>q\<close>, the even one at a tie; and the multiple of the spacing
  \<open>2 ^ (expo x - 52)\<close> nearest to \<open>x\<close>.
\<close>

definition expo :: "real \<Rightarrow> int" where
  "expo x = max \<lfloor>log 2 \<bar>x\<bar>\<rfloor> (- 1022)"

definition roundEven :: "real \<Rightarrow> int" where
  "roundEven q =
     (let n = \<lfloor>q\<rfloor>
      in if q - of_int n < 1 / 2 then n
         else if 1 / 2 < q - of_int n then n + 1
         else if even n then n else n + 1)"

definition nearest :: "real \<Rightarrow> real" where
  "nearest x = of_int (roundEven (x / 2 powi (expo x - 52))) * 2 powi (expo x - 52)"

section \<open>JavaScript numbers\<close>

text \<open>
  Every quantity of the light meter is a JavaScript number: \<open>NaN\<close>, one of the two
  infinities, or a finite value. Every arithmetic operation on finite values computes
  the exact real result and rounds it with \<open>rnd\<close>: to the nearest binary64 value, the
  even one at a tie, to an infinity from \<open>2 ^ 1024\<close> on, through the subnormal numbers to
  zero. The sign of zero is not modelled (a zero divisor counts as \<open>+0\<close>). A literal that
  is not a whole number is written \<open>lit\<close>, the binary64 value nearest to its decimal
  text. \<open>Math.log2\<close> and \<open>Math.pow\<close>, which the language only requires to approximate the
  exact result, are taken as correctly rounded.
\<close>

datatype jsnum = NaN | NegInf | PosInf | Fin real

text \<open>An infinity by its sign: \<open>pos\<close> tells whether it is the positive one.\<close>

definition js_inf :: "bool \<Rightarrow> jsnum" where
  "js_inf pos = (if pos then PosInf else NegInf)"

definition rnd :: "real \<Rightarrow> jsnum" where
  "rnd x = (if 2 ^ 1024 \<le> \<bar>nearest x\<bar> then js_inf (0 < x) else Fin (nearest x))"

definition lit :: "real \<Rightarrow> jsnum" where
  "lit x = rnd x"

fun js_neg :: "jsnum \<Rightarrow> jsnum" where
  "js_neg NaN = NaN"
| "js_neg NegInf = PosInf"
| "js_neg PosInf = NegInf"
| "js_neg (Fin x) = Fin (- x)"

text \<open>\<open>a + b\<close>\<close>

fun js_add :: "jsnum \<Rightarrow> jsnum \<Rightarrow> jsnum" where
  "js_add (Fin x) (Fin y) = rnd (x + y)"
| "js_add NaN b = NaN"
| "js_add a NaN = NaN"
| "js_add PosInf NegInf = NaN"
| "js_add NegInf PosInf = NaN"
| "js_add PosInf b = PosInf"
| "js_add a PosInf = PosInf"
| "js_add NegInf b = NegInf"
| "js_add a NegInf = NegInf"

text \<open>\<open>a - b\<close>\<close>

definition js_sub :: "jsnum \<Rightarrow> jsnum \<Rightarrow> jsnum" where
  "js_sub a b = js_add a (js_neg b)"

text \<open>\<open>a * b\<close>\<close>

fun js_mul :: "jsnum \<Rightarrow> jsnum \<Rightarrow> jsnum" where
  "js_mul (Fin x) (Fin y) = rnd (x * y)"
| "js_mul NaN b = NaN"
| "js_mul a NaN = NaN"
| "js_mul PosInf (Fin y) = (if y = 0 then NaN else js_inf (0 < y))"
| "js_mul NegInf (Fin y) = (if y = 0 then NaN else js_inf (y < 0))"
| "js_mul (Fin x) PosInf = (if x = 0 then NaN else js_inf (0 < x))"
| "js_mul (Fin x) NegInf = (if x = 0 then NaN else js_inf (x < 0))"
| "js_mul PosInf PosInf = PosInf"
| "js_mul PosInf NegInf = NegInf"
| "js_mul NegInf PosInf = NegInf"
| "js_mul NegInf NegInf = PosInf"

text \<open>\<open>a / b\<close>\<close>

fun js_div :: "jsnum \<Rightarrow> jsnum \<Rightarrow> jsnum" where
  "js_div (Fin x) (Fin y) =
     (if y \<noteq> 0 then rnd (x / y) else if x = 0 then NaN else js_inf (0 < x))"
| "js_div NaN b = NaN"
| "js_div a NaN = NaN"
| "js_div (Fin x) PosInf = Fin 0"
| "js_div (Fin x) NegInf = Fin 0"
| "js_div PosInf (Fin y) = js_inf (0 \<le> y)"
| "js_div NegInf (Fin y) = js_inf (y < 0)"
| "js_div PosInf PosInf = NaN"
| "js_div PosInf NegInf = NaN"
| "js_div NegInf PosInf = NaN"
| "js_div NegInf NegInf = NaN"

text \<open>\<open>a < b\<close> and \<open>a <= b\<close>: every comparison with \<open>NaN\<close> is false.\<close>

fun js_lt :: "jsnum \<Rightarrow> jsnum \<Rightarrow> bool" where
  "js_lt (Fin x) (Fin y) = (x < y)"
| "js_lt NaN b = False"
| "js_lt a NaN = False"
| "js_lt a NegInf = False"
| "js_lt PosInf b = False"
| "js_lt NegInf b = True"
| "js_lt a PosInf = True"

fun js_le :: "jsnum \<Rightarrow> jsnum \<Rightarrow> bool" where
  "js_le (Fin x) (Fin y) = (x \<le> y)"
| "js_le NaN b = False"
| "js_le a NaN = False"
| "js_le NegInf b = True"
| "js_le a PosInf = True"
| "js_le a NegInf = False"
| "js_le PosInf b = False"

text \<open>\<open>a > b\<close> and \<open>a >= b\<close>\<close>

definition js_gt :: "jsnum \<Rightarrow> jsnum \<Rightarrow> bool" where
  "js_gt a b = js_lt b a"

definition js_ge :: "jsnum \<Rightarrow> jsnum \<Rightarrow> bool" where
  "js_ge a b = js_le b a"

text \<open>\<open>a === b\<close> on numbers: \<open>NaN\<close> equals nothing, itself included.\<close>

definition js_eq :: "jsnum \<Rightarrow> jsnum \<Rightarrow> bool" where
  "js_eq a b = (a \<noteq> NaN \<and> a = b)"

text \<open>\<open>Math.abs\<close>, \<open>Math.log2\<close>, \<open>Math.floor\<close>, \<open>Math.round\<close>, \<open>Math.min\<close> and
  \<open>Math.pow(2, y)\<close>\<close>

fun js_abs :: "jsnum \<Rightarrow> jsnum" where
  "js_abs NaN = NaN"
| "js_abs NegInf = PosInf"
| "js_abs PosInf = PosInf"
| "js_abs (Fin x) = Fin \<bar>x\<bar>"

fun js_log2 :: "jsnum \<Rightarrow> jsnum" where
  "js_log2 NaN = NaN"
| "js_log2 NegInf = NaN"
| "js_log2 PosInf = PosInf"
| "js_log2 (Fin x) = (if 0 < x then rnd (log 2 x) else if x = 0 then NegInf else NaN)"

fun js_floor :: "jsnum \<Rightarrow> jsnum" where
  "js_floor (Fin x) = Fin (of_int \<lfloor>x\<rfloor>)"
| "js_floor a = a"

fun js_round :: "jsnum \<Rightarrow> jsnum" where
  "js_round (Fin x) = Fin (of_int \<lfloor>x + 1 / 2\<rfloor>)"
| "js_round a = a"

fun js_min :: "jsnum \<Rightarrow> jsnum \<Rightarrow> jsnum" where
  "js_min NaN b = NaN"
| "js_min a NaN = NaN"
| "js_min a b = (if js_le a b then a else b)"

fun js_pow2 :: "jsnum \<Rightarrow> jsnum" where
  "js_pow2 NaN = NaN"
| "js_pow2 NegInf = Fin 0"
| "js_pow2 PosInf = PosInf"
| "js_pow2 (Fin y) = rnd (2 powr y)"

section \<open>The EV calculator\<close>

text \<open>The reference values of the 18 percent gray card.\<close>

definition referenceGray :: jsnum where
  "referenceGray = Fin 128"

definition referenceEV :: jsnum where
  "referenceEV = Fin 7"

text \<open>
  \<open>calculateEffectiveEV(avgBrightness, iso, compensation, calibrationFactor)\<close>:
  the early return on a brightness that is not positive, then the sum
  \<open>referenceEV + log2((avgBrightness * calibrationFactor) / referenceGray) + log2(iso / 100)\<close>
  plus the compensation, added in the source's order (the parameter \<open>iso\<close> is
  \<open>isoValue\<close> here).
\<close>

definition calculateEffectiveEV :: "jsnum \<Rightarrow> jsnum \<Rightarrow> jsnum \<Rightarrow> jsnum \<Rightarrow> jsnum" where
  "calculateEffectiveEV avgBrightness isoValue compensation calibrationFactor =
     (if js_le avgBrightness (Fin 0) then NegInf
      else
        let measuredEV =
              js_add
                (js_add referenceEV
                   (js_log2 (js_div (js_mul avgBrightness calibrationFactor) referenceGray)))
                (js_log2 (js_div isoValue (Fin 100)))
        in js_add measuredEV compensation)"

section \<open>The candidate table\<close>

text \<open>
  The eleven shutter speeds and the nine apertures, and the table \<open>shutterApertureEV\<close> of
  their 99 combinations, each with \<open>ev = Math.log2((a * a) / s)\<close>, in the order
  \<open>flatMap\<close> produces: all apertures of the first shutter speed, then of the second, and so on.
\<close>

definition standardShutterSpeeds :: "jsnum list" where
  "standardShutterSpeeds =
     [js_div (Fin 1) (Fin 1000), js_div (Fin 1) (Fin 500), js_div (Fin 1) (Fin 250),
      js_div (Fin 1) (Fin 125), js_div (Fin 1) (Fin 60), js_div (Fin 1) (Fin 30),
      js_div (Fin 1) (Fin 15), js_div (Fin 1) (Fin 8), js_div (Fin 1) (Fin 4),
      js_div (Fin 1) (Fin 2), Fin 1]"

definition standardApertures :: "jsnum list" where
  "standardApertures = [lit 1.4, Fin 2, lit 2.8, Fin 4, lit 5.6, Fin 8, Fin 11, Fin 16, Fin 22]"

record candidate =
  shutter :: jsnum
  aperture :: jsnum
  ev :: jsnum

definition shutterApertureEV :: "candidate list" where
  "shutterApertureEV =
     concat (map (\<lambda>s. map (\<lambda>a. \<lparr>shutter = s, aperture = a,
                                   ev = js_log2 (js_div (js_mul a a) s)\<rparr>)
                          standardApertures)
                 standardShutterSpeeds)"

section \<open>The exposure resolver\<close>

text \<open>
  The \<open>forEach\<close> scan both resolvers run over the filtered candidates, with its two
  variables \<open>closestCandidate\<close> (initially \<open>null\<close>) and \<open>minDiff\<close> (initially
  \<open>Infinity\<close>): a candidate replaces the current one only when its distance is strictly
  smaller.
\<close>

fun scanCandidates ::
  "jsnum \<Rightarrow> candidate list \<Rightarrow> candidate option \<Rightarrow> jsnum \<Rightarrow> candidate option" where
  "scanCandidates effEV [] closestCandidate minDiff = closestCandidate"
| "scanCandidates effEV (c # cs) closestCandidate minDiff =
     (let diff = js_abs (js_sub (ev c) effEV)
      in if js_lt diff minDiff then scanCandidates effEV cs (Some c) diff
         else scanCandidates effEV cs closestCandidate minDiff)"

text \<open>
  What a resolver returns; the metering tick later adds the field \<open>smoothedEV\<close> to it.
\<close>

record resolved =
  shutterSpeed :: jsnum
  aperture :: jsnum
  effectiveEV :: jsnum
  evDifference :: jsnum

record exposure = resolved +
  smoothedEV :: jsnum

definition calculateExposureShutterPriority ::
  "jsnum \<Rightarrow> jsnum \<Rightarrow> jsnum \<Rightarrow> jsnum \<Rightarrow> jsnum \<Rightarrow> resolved" where
  "calculateExposureShutterPriority avgBrightness isoValue compensation chosenShutter
       calibrationFactor =
     (let effEV = calculateEffectiveEV avgBrightness isoValue compensation calibrationFactor;
          candidates = filter (\<lambda>c. js_eq (shutter c) chosenShutter) shutterApertureEV;
          closestCandidate = scanCandidates effEV candidates None PosInf
      in \<lparr>shutterSpeed = chosenShutter,
          aperture = (case closestCandidate of Some c \<Rightarrow> candidate.aperture c | None \<Rightarrow> Fin 0),
          effectiveEV = effEV,
          evDifference =
            (case closestCandidate of Some c \<Rightarrow> js_sub (ev c) effEV | None \<Rightarrow> Fin 0)\<rparr>)"

definition calculateExposureAperturePriority ::
  "jsnum \<Rightarrow> jsnum \<Rightarrow> jsnum \<Rightarrow> jsnum \<Rightarrow> jsnum \<Rightarrow> resolved" where
  "calculateExposureAperturePriority avgBrightness isoValue compensation chosenAperture
       calibrationFactor =
     (let effEV = calculateEffectiveEV avgBrightness isoValue compensation calibrationFactor;
          candidates = filter (\<lambda>c. js_eq (candidate.aperture c) chosenAperture)
                         shutterApertureEV;
          closestCandidate = scanCandidates effEV candidates None PosInf
      in \<lparr>shutterSpeed = (case closestCandidate of Some c \<Rightarrow> shutter c | None \<Rightarrow> Fin 0),
          aperture = chosenAperture,
          effectiveEV = effEV,
          evDifference =
            (case closestCandidate of Some c \<Rightarrow> js_sub (ev c) effEV | None \<Rightarrow> Fin 0)\<rparr>)"

section \<open>The histogram engine\<close>

text \<open>
  The working buffer \<open>imageData.data\<close> holds four bytes per pixel, so it is a list of
  RGBA quadruples here, and the loop \<open>for (i = 0; i < data.length; i += 4)\<close> walks it
  pixel by pixel, \<open>i / 4\<close> being the pixel's index.
\<close>

type_synonym pixel = "8 word \<times> 8 word \<times> 8 word \<times> 8 word"

definition channel :: "8 word \<Rightarrow> jsnum" where
  "channel w = Fin (real (unat w))"

text \<open>\<open>Math.floor(0.299 * data[i] + 0.587 * data[i + 1] + 0.114 * data[i + 2])\<close>\<close>

definition brightnessOf :: "pixel \<Rightarrow> jsnum" where
  "brightnessOf p =
     (case p of (r, g, b, a) \<Rightarrow>
        js_floor (js_add (js_add (js_mul (lit 0.299) (channel r)) (js_mul (lit 0.587) (channel g)))
                         (js_mul (lit 0.114) (channel b))))"

text \<open>\<open>Math.min(Math.round(brightness * Math.pow(2, compensation)), 255)\<close>\<close>

definition adjustedBrightness :: "jsnum \<Rightarrow> pixel \<Rightarrow> jsnum" where
  "adjustedBrightness compensation p =
     js_min (js_round (js_mul (brightnessOf p) (js_pow2 compensation))) (Fin 255)"

text \<open>
  \<open>histogram[idx]++\<close> on the counted slots of the array: an index that is a whole number
  inside the array adds one to its slot; any other key (a negative or fractional number,
  \<open>NaN\<close>, an index past the end) makes JavaScript write elsewhere and leaves the
  counted slots as they are.
\<close>

definition incrementBin :: "nat list \<Rightarrow> jsnum \<Rightarrow> nat list" where
  "incrementBin histogram idx =
     (case idx of
        Fin x \<Rightarrow>
          if 0 \<le> x \<and> of_int \<lfloor>x\<rfloor> = x \<and> nat \<lfloor>x\<rfloor> < length histogram
          then histogram[nat \<lfloor>x\<rfloor> := Suc (histogram ! nat \<lfloor>x\<rfloor>)]
          else histogram
      | _ \<Rightarrow> histogram)"





section \<open>The zone overlay\<close>

text \<open>
  The zone boundaries \<open>referenceGray * Math.pow(2, zone - 5)\<close> for the zones 2 to 7, and
  the pass over them that replaces a boundary above 255 by 255 and sets \<open>clipped\<close>.
\<close>

definition zoneNumbers :: "jsnum list" where
  "zoneNumbers = [Fin 2, Fin 3, Fin 4, Fin 5, Fin 6, Fin 7]"

definition boundaryOf :: "jsnum \<Rightarrow> jsnum" where
  "boundaryOf zone = js_mul referenceGray (js_pow2 (js_sub zone (Fin 5)))"

definition computedBoundaries :: "jsnum list" where
  "computedBoundaries = map boundaryOf zoneNumbers"

fun clampBoundaries :: "jsnum list \<Rightarrow> bool \<Rightarrow> jsnum list \<times> bool" where
  "clampBoundaries [] clipped = ([], clipped)"
| "clampBoundaries (b # bs) clipped =
     (if js_gt b (Fin 255)
      then (case clampBoundaries bs True of (rest, cl) \<Rightarrow> (Fin 255 # rest, cl))
      else (case clampBoundaries bs clipped of (rest, cl) \<Rightarrow> (b # rest, cl)))"

definition zoneOverlay :: "jsnum list \<times> bool" where
  "zoneOverlay = clampBoundaries computedBoundaries False"

section \<open>The metering tick: smoother, AE lock and classifier\<close>

text \<open>
  The smoother's update of \<open>smoothedEVRef.current\<close>: the first sample is taken as it is,
  every later one is mixed in with weight \<open>smoothingFactor\<close>.
\<close>

definition smoothEV :: "jsnum \<Rightarrow> jsnum option \<Rightarrow> jsnum \<Rightarrow> jsnum" where
  "smoothEV smoothingFactor ref currentEV =
     (case ref of
        None \<Rightarrow> currentEV
      | Some sm \<Rightarrow>
          js_add (js_mul sm (js_sub (Fin 1) smoothingFactor)) (js_mul currentEV smoothingFactor))"

text \<open>The chain of comparisons that sets the exposure warning from \<open>exp.evDifference\<close>.\<close>

definition exposureWarningFor :: "jsnum \<Rightarrow> string" where
  "exposureWarningFor d =
     (if js_le d (Fin (- 1)) then
        ''Severely underexposed, increase aperture or ISO significantly.''
      else if js_le d (lit (- 0.6)) then
        ''Moderately underexposed, consider increasing aperture or ISO.''
      else if js_le d (lit (- 0.3)) then ''Slightly underexposed, fine-tune settings.''
      else if js_ge d (Fin 1) then
        ''Severely overexposed, reduce aperture or ISO significantly.''
      else if js_ge d (lit 0.6) then
        ''Moderately overexposed, consider reducing aperture or ISO.''
      else if js_ge d (lit 0.3) then ''Slightly overexposed, fine-tune settings.''
      else [])"

text \<open>
  The state of the \<open>App\<close> component the tick reads and writes: the settings, the two
  refs, the lock flag and the published reading with its warning and error texts. The
  wizard step, the camera stream and the settings that only reach the sampler or the
  canvas are left out.
\<close>

record app =
  isoValue :: jsnum
  compensation :: jsnum
  priorityMode :: string
  calibrationFactor :: jsnum
  smoothingFactor :: jsnum
  chosenAperture :: jsnum
  chosenShutter :: jsnum
  aeLocked :: bool
  lockedEVRef :: "jsnum option"
  smoothedEVRef :: "jsnum option"
  exposure :: exposure
  exposureWarning :: string
  error :: string

text \<open>The state the component starts in: the initial values of its \<open>useState\<close> and
  \<open>useRef\<close> calls.\<close>

definition initialApp :: app where
  "initialApp =
     \<lparr>isoValue = Fin 100, compensation = Fin 0, priorityMode = ''aperture'',
      calibrationFactor = lit 0.85, smoothingFactor = lit 0.1,
      chosenAperture = lit 2.8, chosenShutter = js_div (Fin 1) (Fin 125),
      aeLocked = False, lockedEVRef = None, smoothedEVRef = None,
      exposure = \<lparr>shutterSpeed = Fin 0, aperture = Fin 0, effectiveEV = Fin 0,
                    evDifference = Fin 0, smoothedEV = Fin 0\<rparr>,
      exposureWarning = [], error = []\<rparr>"

text \<open>\<open>handleAeLock\<close>: the toggle behind the AE-lock button.\<close>

definition handleAeLock :: "app \<Rightarrow> app" where
  "handleAeLock s =
     (if aeLocked s then s\<lparr>aeLocked := False, lockedEVRef := None\<rparr>
      else s\<lparr>lockedEVRef := Some (effectiveEV (exposure s)), aeLocked := True\<rparr>)"

text \<open>
  One run of the interval callback on a frame that is ready, given the brightness
  \<open>computeBrightness\<close> measured on it. Nothing in the body can throw on numbers, so
  the \<open>catch\<close> branch is not reached.
\<close>

definition meterTick :: "jsnum \<Rightarrow> app \<Rightarrow> app" where
  "meterTick avgBrightness s =
     (if js_lt avgBrightness (Fin 5) then
        s\<lparr>error := ''Extremely dark, increase ISO/aperture.''\<rparr>
      else if js_gt avgBrightness (Fin 250) then
        s\<lparr>error := ''Extremely bright! Reduce ISO or aperture.''\<rparr>
      else
        let exp = (if priorityMode s = ''aperture''
                   then calculateExposureAperturePriority avgBrightness (isoValue s)
                          (compensation s) (chosenAperture s) (calibrationFactor s)
                   else calculateExposureShutterPriority avgBrightness (isoValue s)
                          (compensation s) (chosenShutter s) (calibrationFactor s));
            currentEV = effectiveEV exp;
            sm = smoothEV (smoothingFactor s) (smoothedEVRef s) currentEV;
            exp1 = \<lparr>shutterSpeed = shutterSpeed exp, aperture = aperture exp,
                      effectiveEV = effectiveEV exp, evDifference = evDifference exp,
                      smoothedEV = sm\<rparr>;
            exp2 = (if aeLocked s \<and> lockedEVRef s \<noteq> None
                    then exp1\<lparr>effectiveEV := the (lockedEVRef s)\<rparr> else exp1)
        in s\<lparr>error := [],
             smoothedEVRef := Some sm,
             exposure := exp2,
             exposureWarning := exposureWarningFor (evDifference exp2)\<rparr>)"

text \<open>A run of ticks, one brightness sample each, oldest first.\<close>

fun meterTicks :: "jsnum list \<Rightarrow> app \<Rightarrow> app" where
  "meterTicks [] s = s"
| "meterTicks (b # bs) s = meterTicks bs (meterTick b s)"

text \<open>A run of the smoother alone over a list of samples.\<close>

fun smoothAll :: "jsnum \<Rightarrow> jsnum option \<Rightarrow> jsnum list \<Rightarrow> jsnum option" where
  "smoothAll alpha ref [] = ref"
| "smoothAll alpha ref (e # es) = smoothAll alpha (Some (smoothEV alpha ref e)) es"
section \<open>Properties of the rounding\<close>

text \<open>The whole number chosen is within one half of \<open>q\<close>, and no whole number is nearer.\<close>

lemma roundEven_near: "\<bar>q - of_int (roundEven q)\<bar> \<le> 1 / 2"
  unfolding roundEven_def Let_def by (auto; linarith)

lemma roundEven_nearest_int: "\<bar>q - of_int (roundEven q)\<bar> \<le> \<bar>q - of_int k\<bar>"
proof (cases "k = roundEven q")
  case True
  then show ?thesis by simp
next
  case False
  then have "1 \<le> \<bar>roundEven q - k\<bar>" by linarith
  then have "1 \<le> \<bar>(of_int (roundEven q) :: real) - of_int k\<bar>"
    by (metis of_int_1_le_iff of_int_abs of_int_diff)
  then show ?thesis using roundEven_near [of q] by linarith
qed

text \<open>The binade: \<open>2 ^ expo x \<le> \<bar>x\<bar> < 2 ^ (expo x + 1)\<close>, the lower bound above the subnormal range.\<close>

lemma expo_upper: assumes "x \<noteq> 0" shows "\<bar>x\<bar> < 2 powi (expo x + 1)"
proof -
  have pos: "0 < \<bar>x\<bar>" using assms by simp
  let ?k = "\<lfloor>log 2 \<bar>x\<bar>\<rfloor>"
  have "\<bar>x\<bar> < 2 powr (?k + 1)"
    using floor_log_eq_powr_iff [of "\<bar>x\<bar>" 2 ?k] pos by simp
  also have "\<dots> = 2 powi (?k + 1)"
    by (metis powr_real_of_int' zero_less_numeral less_numeral_extra(3) zero_le_numeral)
  also have "\<dots> \<le> 2 powi (expo x + 1)"
    by (rule power_int_increasing) (simp_all add: expo_def)
  finally show ?thesis .
qed

lemma expo_lower: assumes "x \<noteq> 0" "- 1022 \<le> \<lfloor>log 2 \<bar>x\<bar>\<rfloor>" shows "2 powi (expo x) \<le> \<bar>x\<bar>"
proof -
  have pos: "0 < \<bar>x\<bar>" using assms by simp
  let ?k = "\<lfloor>log 2 \<bar>x\<bar>\<rfloor>"
  have e: "expo x = ?k" using assms by (simp add: expo_def)
  have "2 powr ?k \<le> \<bar>x\<bar>"
    using floor_log_eq_powr_iff [of "\<bar>x\<bar>" 2 ?k] pos by simp
  moreover have "2 powr ?k = (2::real) powi ?k"
    by (metis powr_real_of_int' zero_less_numeral less_numeral_extra(3) zero_le_numeral)
  ultimately show ?thesis using e by simp
qed

lemma expo_ge: "- 1022 \<le> expo x"
  by (simp add: expo_def)


lemma grid_pos: "0 < (2::real) powi j"
  by simp

lemma nearest_zero [simp]: "nearest 0 = 0"
  by (simp add: nearest_def roundEven_def)

text \<open>
  \<open>nearest x\<close> is a binary64 value, and no binary64 value is nearer to \<open>x\<close>: first among
  the multiples of the spacing at \<open>x\<close>, then among all.
\<close>

lemma nearest_multiple:
  "\<bar>x - nearest x\<bar> \<le> \<bar>x - of_int k * 2 powi (expo x - 52)\<bar>"
proof -
  let ?u = "(2::real) powi (expo x - 52)"
  let ?q = "x / ?u"
  have u: "0 < ?u" by simp
  have "x - nearest x = (?q - of_int (roundEven ?q)) * ?u"
    using u by (simp add: nearest_def field_simps)
  then have a: "\<bar>x - nearest x\<bar> = \<bar>?q - of_int (roundEven ?q)\<bar> * ?u"
    using u by (simp add: abs_mult)
  have "x - of_int k * ?u = (?q - of_int k) * ?u"
    using u by (simp add: field_simps)
  then have b: "\<bar>x - of_int k * ?u\<bar> = \<bar>?q - of_int k\<bar> * ?u"
    using u by (simp add: abs_mult)
  show ?thesis
    unfolding a b using roundEven_nearest_int [of ?q k] u by (simp add: mult_right_mono)
qed

lemma near_int_bound:
  assumes "\<bar>q\<bar> < real_of_int B" "\<bar>q - real_of_int n\<bar> \<le> 1 / 2"
  shows "\<bar>n\<bar> \<le> B"
proof -
  have "real_of_int n < real_of_int (B + 1)" "real_of_int (- B - 1) < real_of_int n"
    using assms by (simp_all; linarith)+
  then have "n < B + 1" "- B - 1 < n"
    by (simp_all only: of_int_less_iff)
  then show ?thesis by linarith
qed

lemma nearest_mantissa: "\<bar>roundEven (x / 2 powi (expo x - 52))\<bar> \<le> 2 ^ 53"
proof (cases "x = 0")
  case True
  then show ?thesis by (simp add: roundEven_def)
next
  case False
  let ?u = "(2::real) powi (expo x - 52)"
  let ?q = "x / ?u"
  have u: "0 < ?u" by simp
  have "2 powi (expo x + 1) = (2::real) ^ 53 * ?u"
  proof -
    have "expo x + 1 = 53 + (expo x - 52)" by simp
    then have "(2::real) powi (expo x + 1) = 2 powi 53 * 2 powi (expo x - 52)"
      by (metis power_int_add zero_neq_numeral)
    then show ?thesis by simp
  qed
  then have "\<bar>x\<bar> < 2 ^ 53 * ?u"
    using expo_upper [OF False] by simp
  then have "\<bar>x\<bar> / ?u < 2 ^ 53"
    using u by (simp add: pos_divide_less_eq)
  then have "\<bar>?q\<bar> < real_of_int (2 ^ 53)"
    using u by simp
  from near_int_bound [OF this roundEven_near]
  show ?thesis .
qed

lemma isDouble_nearest: "isDouble (nearest x)"
  unfolding isDouble_def nearest_def
  using nearest_mantissa [of x] expo_ge [of x]
  by (intro exI [of _ "roundEven (x / 2 powi (expo x - 52))"] exI [of _ "expo x - 52"]) simp


lemma nearest_best:
  assumes "isDouble d"
  shows "\<bar>x - nearest x\<bar> \<le> \<bar>x - d\<bar>"
proof -
  from assms obtain m j where m: "\<bar>m\<bar> \<le> 2 ^ 53" and j: "- 1074 \<le> j"
    and d: "d = of_int m * 2 powi j"
    unfolding isDouble_def by blast
  let ?e = "expo x"
  let ?u = "(2::real) powi (?e - 52)"
  show ?thesis
  proof (cases "?e - 52 \<le> j")
    case True
    then obtain k where k: "j = (?e - 52) + int k"
      by (metis zle_iff_zadd)
    have "(2::real) powi j = 2 powi (?e - 52) * 2 powi (int k)"
      unfolding k by (rule power_int_add) simp
    then have "d = of_int (m * 2 ^ k) * ?u"
      using d by simp
    then show ?thesis
      using nearest_multiple [of x "m * 2 ^ k"] by simp
  next
    case False
    then have lt: "j < ?e - 52" by simp
    then have e: "- 1022 < ?e" using j by linarith
    then have fl: "- 1022 \<le> \<lfloor>log 2 \<bar>x\<bar>\<rfloor>"
      unfolding expo_def by linarith
    show ?thesis
    proof (cases "x = 0")
      case True
      then show ?thesis by simp
    next
      case False
      have low: "2 powi ?e \<le> \<bar>x\<bar>"
        using expo_lower [OF False fl] .
      have "j + 53 \<le> ?e" using lt by simp
      then have "(2::real) powi (j + 53) \<le> 2 powi ?e"
        by (intro power_int_increasing) simp_all
      moreover have "(2::real) powi (j + 53) = 2 powi j * 2 ^ 53"
        by (subst power_int_add) simp_all
      moreover have "\<bar>d\<bar> \<le> 2 ^ 53 * 2 powi j"
      proof -
        have "\<bar>real_of_int m\<bar> \<le> 2 ^ 53"
          using m by (metis of_int_abs of_int_le_iff of_int_numeral of_int_power)
        then show ?thesis
          unfolding d by (simp add: abs_mult mult_right_mono)
      qed
      ultimately have dle: "\<bar>d\<bar> \<le> 2 powi ?e"
        by (simp add: mult.commute)
      have split: "(2::real) powi ?e = 2 ^ 52 * ?u"
      proof -
        have "?e = 52 + (?e - 52)" by simp
        then have "(2::real) powi ?e = 2 powi 52 * 2 powi (?e - 52)"
          by (metis power_int_add zero_neq_numeral)
        then show ?thesis by simp
      qed
      show ?thesis
      proof (cases "0 < x")
        case True
        have "\<bar>x - nearest x\<bar> \<le> \<bar>x - of_int (2 ^ 52) * ?u\<bar>"
          by (rule nearest_multiple)
        also have "\<dots> = \<bar>x - 2 powi ?e\<bar>"
          using split by simp
        also have "\<dots> \<le> \<bar>x - d\<bar>"
          using low dle True by linarith
        finally show ?thesis .
      next
        case neg: False
        have "\<bar>x - nearest x\<bar> \<le> \<bar>x - of_int (- (2 ^ 52)) * ?u\<bar>"
          by (rule nearest_multiple)
        also have "\<dots> = \<bar>x + 2 powi ?e\<bar>"
          using split by simp
        also have "\<dots> \<le> \<bar>x - d\<bar>"
          using low dle neg False by linarith
        finally show ?thesis .
      qed
    qed
  qed
qed

text \<open>Hence rounding keeps a binary64 value and is monotone.\<close>

lemma nearest_exact: "isDouble d \<Longrightarrow> nearest d = d"
  using nearest_best [of d d] by simp

lemma nearest_mono:
  assumes "x \<le> y"
  shows "nearest x \<le> nearest y"
proof (rule ccontr)
  assume "\<not> nearest x \<le> nearest y"
  then have gt: "nearest y < nearest x" by simp
  have a: "\<bar>x - nearest x\<bar> \<le> \<bar>x - nearest y\<bar>"
    by (rule nearest_best [OF isDouble_nearest])
  have b: "\<bar>y - nearest y\<bar> \<le> \<bar>y - nearest x\<bar>"
    by (rule nearest_best [OF isDouble_nearest])
  have eq: "x = y \<Longrightarrow> False" using gt by simp
  from a gt have "nearest x + nearest y \<le> 2 * x" by linarith
  moreover from b gt have "2 * y \<le> nearest x + nearest y" by linarith
  ultimately have "y \<le> x" by linarith
  with assms have "x = y" by simp
  then show False using eq by simp
qed

text \<open>Whole numbers and dyadic fractions with a mantissa of at most 53 bits are binary64 values.\<close>

lemma isDouble_int: "\<bar>n\<bar> \<le> 2 ^ 53 \<Longrightarrow> isDouble (of_int n)"
  unfolding isDouble_def by (intro exI [of _ n] exI [of _ 0]) simp

lemma isDouble_dyadic: "\<bar>n\<bar> \<le> 2 ^ 53 \<Longrightarrow> k \<le> 1074 \<Longrightarrow> isDouble (of_int n / 2 ^ k)"
  unfolding isDouble_def
  by (intro exI [of _ n] exI [of _ "- int k"]) (simp add: power_int_minus field_simps)

lemma isDouble_scaled: "\<bar>n\<bar> \<le> 2 ^ 53 \<Longrightarrow> isDouble (of_int n * 2 ^ k)"
  unfolding isDouble_def by (intro exI [of _ n] exI [of _ "int k"]) simp

lemma isDouble_minus: "isDouble x \<Longrightarrow> isDouble (- x)"
  unfolding isDouble_def
  by (elim exE conjE) (rule_tac x = "- m" in exI, rule_tac x = j in exI, simp)

lemma nearest_nonneg: "0 \<le> x \<Longrightarrow> 0 \<le> nearest x"
  using nearest_mono [of 0 x] by simp


text \<open>
  The laws of \<open>rnd\<close> the later proofs use: a binary64 value is kept, a value between two
  binary64 bounds stays between them, the result is never \<open>NaN\<close>, overflow and underflow
  happen where the format says, and the order is kept.
\<close>

lemma rnd_double: "isDouble d \<Longrightarrow> \<bar>d\<bar> < 2 ^ 1024 \<Longrightarrow> rnd d = Fin d"
  by (simp add: rnd_def nearest_exact)

lemma rnd_between:
  assumes "lo \<le> x" "x \<le> hi" "isDouble lo" "isDouble hi" "\<bar>lo\<bar> < 2 ^ 1024" "\<bar>hi\<bar> < 2 ^ 1024"
  shows "\<exists>y. rnd x = Fin y \<and> lo \<le> y \<and> y \<le> hi \<and> isDouble y"
proof -
  have "nearest lo \<le> nearest x" "nearest x \<le> nearest hi"
    using assms(1,2) by (simp_all add: nearest_mono)
  then have b: "lo \<le> nearest x" "nearest x \<le> hi"
    using assms(3,4) by (simp_all add: nearest_exact)
  then have "\<bar>nearest x\<bar> < 2 ^ 1024"
    using assms(5,6) by linarith
  then show ?thesis
    using b isDouble_nearest [of x] by (simp add: rnd_def)
qed

lemma rnd_fin: "rnd x = Fin y \<Longrightarrow> isDouble y \<and> \<bar>y\<bar> < 2 ^ 1024 \<and> y = nearest x"
  using isDouble_nearest [of x] by (auto simp add: rnd_def js_inf_def split: if_splits)

lemma rnd_not_NaN [simp]: "rnd x \<noteq> NaN"
  by (simp add: rnd_def js_inf_def)

lemma rnd_overflow:
  assumes "2 ^ 1024 \<le> x"
  shows "rnd x = PosInf"
proof -
  have "isDouble (2 ^ 1024)"
    using isDouble_scaled [of 1 1024] by simp
  then have "nearest (2 ^ 1024) = 2 ^ 1024" by (rule nearest_exact)
  then have "2 ^ 1024 \<le> nearest x"
    using nearest_mono [OF assms] by simp
  moreover have "0 < x" using assms by (smt (verit) zero_less_power)
  ultimately show ?thesis by (simp add: rnd_def js_inf_def)
qed

lemma rnd_underflow:
  assumes "\<bar>x\<bar> < 1 / 2 ^ 1075"
  shows "rnd x = Fin 0"
proof -
  have z: "isDouble 0" using isDouble_int [of 0] by simp
  have "nearest x = 0"
  proof (rule ccontr)
    assume nz: "nearest x \<noteq> 0"
    obtain m j where m: "\<bar>m\<bar> \<le> 2 ^ 53" and j: "- 1074 \<le> j"
      and d: "nearest x = of_int m * 2 powi j"
      using isDouble_nearest [of x] unfolding isDouble_def by blast
    have "m \<noteq> 0" using nz d by auto
    then have "1 \<le> \<bar>real_of_int m\<bar>" by simp
    moreover have "(2::real) powi (- 1074) \<le> 2 powi j"
      using j by (intro power_int_increasing) simp_all
    ultimately have "1 * 2 powi (- 1074) \<le> \<bar>real_of_int m\<bar> * 2 powi j"
      by (intro mult_mono) simp_all
    then have big: "1 / 2 ^ 1074 \<le> \<bar>nearest x\<bar>"
      unfolding d by (simp add: abs_mult power_int_minus field_simps)
    have "\<bar>x - nearest x\<bar> \<le> \<bar>x - 0\<bar>"
      by (rule nearest_best [OF z])
    moreover have "(1::real) / 2 ^ 1074 = 2 * (1 / 2 ^ 1075)" by simp
    ultimately show False using big assms by linarith
  qed
  then show ?thesis by (simp add: rnd_def)
qed


text \<open>The rounding error: half a spacing of the binade.\<close>

lemma nearest_err:
  assumes "\<bar>x\<bar> \<le> 2 powi k" "- 1021 \<le> k"
  shows "\<bar>nearest x - x\<bar> \<le> 2 powi (k - 54)"
proof -
  let ?u = "(2::real) powi (k - 53)"
  let ?q = "x / ?u"
  let ?n = "roundEven ?q"
  have u: "0 < ?u" by simp
  have "(2::real) powi k = 2 ^ 53 * ?u"
  proof -
    have "k = 53 + (k - 53)" by simp
    then have "(2::real) powi k = 2 powi 53 * 2 powi (k - 53)"
      by (metis power_int_add zero_neq_numeral)
    then show ?thesis by simp
  qed
  then have "\<bar>x\<bar> / ?u \<le> 2 ^ 53"
    using assms(1) u by (simp add: pos_divide_le_eq)
  then have "\<bar>?q\<bar> < real_of_int (2 ^ 53 + 1)"
    using u by simp
  from near_int_bound [OF this roundEven_near]
  have "\<bar>?n\<bar> \<le> 2 ^ 53 + 1" .
  moreover have "?n \<noteq> 2 ^ 53 + 1" "?n \<noteq> - (2 ^ 53) - 1"
  proof -
    have q: "\<bar>?q\<bar> \<le> 2 ^ 53" using \<open>\<bar>x\<bar> / ?u \<le> 2 ^ 53\<close> u by simp
    have r: "\<bar>?q - real_of_int ?n\<bar> \<le> 1 / 2" by (rule roundEven_near)
    show "?n \<noteq> 2 ^ 53 + 1"
    proof
      assume "?n = 2 ^ 53 + 1"
      then have "real_of_int ?n = 2 ^ 53 + 1" by simp
      with q r show False by linarith
    qed
    show "?n \<noteq> - (2 ^ 53) - 1"
    proof
      assume "?n = - (2 ^ 53) - 1"
      then have "real_of_int ?n = - (2 ^ 53) - 1" by simp
      with q r show False by linarith
    qed
  qed
  ultimately have m: "\<bar>?n\<bar> \<le> 2 ^ 53" by linarith
  have "isDouble (of_int ?n * ?u)"
    unfolding isDouble_def using m assms(2)
    by (intro exI [of _ ?n] exI [of _ "k - 53"]) simp
  then have "\<bar>x - nearest x\<bar> \<le> \<bar>x - of_int ?n * ?u\<bar>"
    by (rule nearest_best)
  also have "\<dots> = \<bar>?q - of_int ?n\<bar> * ?u"
  proof -
    have "x - of_int ?n * ?u = (?q - of_int ?n) * ?u"
      using u by (simp add: field_simps)
    then show ?thesis using u by (simp add: abs_mult)
  qed
  also have "\<dots> \<le> 1 / 2 * ?u"
    using roundEven_near [of ?q] u by (intro mult_right_mono) simp_all
  also have "\<dots> = 2 powi (k - 54)"
  proof -
    have "k - 53 = 1 + (k - 54)" by simp
    then have "(2::real) powi (k - 53) = 2 powi 1 * 2 powi (k - 54)"
      by (metis power_int_add zero_neq_numeral)
    then show ?thesis by simp
  qed
  finally show ?thesis by (simp add: abs_minus_commute)
qed

text \<open>Rounding a concrete number: its binade, then the whole number nearest to the quotient.\<close>

lemma expo_eq:
  assumes "2 powi e \<le> \<bar>x\<bar>" "\<bar>x\<bar> < 2 powi (e + 1)" "- 1022 \<le> e"
  shows "expo x = e"
proof -
  have pos: "0 < \<bar>x\<bar>"
    using assms(1) by (smt (verit) zero_less_power_int)
  have p: "2 powr (real_of_int e) = (2::real) powi e"
    by (metis powr_real_of_int' zero_less_numeral less_numeral_extra(3) zero_le_numeral)
  have "2 powr (real_of_int (e + 1)) = (2::real) powi (e + 1)"
    by (metis powr_real_of_int' zero_less_numeral less_numeral_extra(3) zero_le_numeral)
  then have p': "2 powr (real_of_int e + 1) = (2::real) powi (e + 1)"
    by simp
  have "\<lfloor>log 2 \<bar>x\<bar>\<rfloor> = e"
    using floor_log_eq_powr_iff [of "\<bar>x\<bar>" 2 e] pos assms(1,2) p p' by simp
  then show ?thesis using assms(3) by (simp add: expo_def)
qed

lemma roundEven_eq:
  assumes "\<bar>q - real_of_int n\<bar> < 1 / 2"
  shows "roundEven q = n"
proof -
  have "\<bar>q - real_of_int (roundEven q)\<bar> \<le> 1 / 2" by (rule roundEven_near)
  with assms have "\<bar>real_of_int (roundEven q) - real_of_int n\<bar> < 1" by linarith
  then have "\<bar>real_of_int (roundEven q - n)\<bar> < 1" by simp
  then have "\<bar>roundEven q - n\<bar> < 1"
    by (metis of_int_abs of_int_less_1_iff)
  then show ?thesis by linarith
qed

lemma nearest_eval:
  assumes "2 powi e \<le> \<bar>x\<bar>" "\<bar>x\<bar> < 2 powi (e + 1)" "- 1022 \<le> e"
    and "\<bar>x / 2 powi (e - 52) - real_of_int n\<bar> < 1 / 2"
  shows "nearest x = of_int n * 2 powi (e - 52)"
  using expo_eq [OF assms(1-3)] roundEven_eq [OF assms(4)] by (simp add: nearest_def)

lemma rnd_finite: "\<bar>nearest x\<bar> < 2 ^ 1024 \<Longrightarrow> rnd x = Fin (nearest x)"
  by (simp add: rnd_def)

lemma rnd_within:
  assumes "lo \<le> x" "x \<le> hi" "isDouble lo" "isDouble hi" "\<bar>lo\<bar> < 2 ^ 1024" "\<bar>hi\<bar> < 2 ^ 1024"
  shows "rnd x = Fin (nearest x) \<and> lo \<le> nearest x \<and> nearest x \<le> hi"
  using rnd_between [OF assms] rnd_fin by blast


lemma js_le_rnd [simp]: "js_le NegInf (rnd x)" "js_le (rnd x) PosInf"
  by (cases "rnd x"; simp)+

section \<open>Properties of the arithmetic\<close>

text \<open>
  The order is kept by an addition, by a division by a positive constant, by a product
  with a constant that is not negative, and by \<open>Math.log2\<close>, unless the result is \<open>NaN\<close>.
\<close>

lemma js_le_not_NaN: "js_le a b \<Longrightarrow> a \<noteq> NaN \<and> b \<noteq> NaN"
  by (cases a; cases b) simp_all








text \<open>Whole numbers and dyadic fractions of at most 53 bits are kept by \<open>rnd\<close>.\<close>

lemma rnd_of_int:
  assumes "\<bar>n\<bar> \<le> 2 ^ 53"
  shows "rnd (of_int n) = Fin (of_int n)"
proof -
  have "\<bar>real_of_int n\<bar> \<le> 2 ^ 53"
    using assms by (metis of_int_abs of_int_le_iff of_int_numeral of_int_power)
  moreover have "(2::real) ^ 53 < 2 ^ 1024" by simp
  ultimately have "\<bar>real_of_int n\<bar> < 2 ^ 1024" by linarith
  then show ?thesis using isDouble_int [OF assms] by (rule rnd_double [rotated])
qed

lemma rnd_dyadic:
  assumes "\<bar>n\<bar> \<le> 2 ^ 53" "k \<le> 1074"
  shows "rnd (of_int n / 2 ^ k) = Fin (of_int n / 2 ^ k)"
proof -
  have "\<bar>real_of_int n\<bar> \<le> 2 ^ 53"
    using assms(1) by (metis of_int_abs of_int_le_iff of_int_numeral of_int_power)
  moreover have "\<bar>real_of_int n / 2 ^ k\<bar> \<le> \<bar>real_of_int n\<bar>"
    by (simp add: divide_le_eq_1 field_simps mult_le_cancel_left1)
  moreover have "(2::real) ^ 53 < 2 ^ 1024" by simp
  ultimately have "\<bar>real_of_int n / 2 ^ k\<bar> < 2 ^ 1024" by linarith
  then show ?thesis using isDouble_dyadic [OF assms] by (rule rnd_double [rotated])
qed

lemma rnd_numeral [simp]:
  "numeral k \<le> (2::int) ^ 53 \<Longrightarrow> rnd (numeral k) = Fin (numeral k)"
  "numeral k \<le> (2::int) ^ 53 \<Longrightarrow> rnd (- numeral k) = Fin (- numeral k)"
  "rnd 0 = Fin 0" "rnd 1 = Fin 1" "rnd (- 1) = Fin (- 1)"
  using rnd_of_int [of "numeral k"] rnd_of_int [of "- numeral k"] rnd_of_int [of 0]
    rnd_of_int [of 1] rnd_of_int [of "- 1"]
  by simp_all

lemma rnd_half [simp]: "rnd (1 / 2) = Fin (1 / 2)"
  using rnd_dyadic [of 1 1] by simp

section \<open>Properties of the EV calculator\<close>

text \<open>Above the guard the result is the sum, each addition rounded.\<close>

lemma calculateEffectiveEV_sum:
  assumes "0 < b"
  shows "calculateEffectiveEV (Fin b) i c f =
           js_add (js_add (js_add (Fin 7) (js_log2 (js_div (js_mul (Fin b) f) (Fin 128))))
                          (js_log2 (js_div i (Fin 100)))) c"
  using assms by (simp add: calculateEffectiveEV_def referenceEV_def referenceGray_def)


text \<open>The anchors: at brightness 128, ISO 100 and factor 1 both logarithms are 0.\<close>

lemma log2_values: "log 2 1 = 0" "log 2 2 = 1" "log 2 (1 / 2) = - 1"
  using log_inverse [of 2 2] by (simp_all add: inverse_eq_divide)

lemma calculateEffectiveEV_anchor:
  "calculateEffectiveEV (Fin 128) (Fin 100) (Fin 0) (Fin 1) = Fin 7"
  "calculateEffectiveEV (Fin 256) (Fin 100) (Fin 0) (Fin 1) = Fin 8"
  "calculateEffectiveEV (Fin 64) (Fin 100) (Fin 0) (Fin 1) = Fin 6"
  "calculateEffectiveEV (Fin 128) (Fin 200) (Fin 0) (Fin 1) = Fin 8"
  "calculateEffectiveEV (Fin 128) (Fin 100) (Fin 0) (Fin 2) = Fin 8"
  "calculateEffectiveEV (Fin 128) (Fin 100) (Fin 1) (Fin 1) = Fin 8"
  by (simp_all add: calculateEffectiveEV_sum log2_values)




lemma js_add_NaN [simp]: "js_add NaN a = NaN" "js_add a NaN = NaN"
  by (cases a; simp)+





text \<open>
  On inputs of ordinary size nothing overflows or underflows and both logarithms are
  finite: the result is a finite number.
\<close>

lemma log2_bounds:
  assumes "1 / 2 ^ k \<le> x" "x \<le> 2 ^ m"
  shows "- real k \<le> log 2 x \<and> log 2 x \<le> real m"
proof -
  have pos: "0 < x"
    using assms(1) by (smt (verit) divide_pos_pos zero_less_power)
  have "log 2 (1 / 2 ^ k) \<le> log 2 x"
    by (subst log_le_cancel_iff) (use assms pos in simp_all)
  moreover have "log 2 x \<le> log 2 (2 ^ m)"
    by (subst log_le_cancel_iff) (use assms pos in simp_all)
  moreover have "log 2 (1 / 2 ^ k) = - real k"
    by (simp add: log_divide)
  moreover have "log 2 (2 ^ m) = real m"
    by simp
  ultimately show ?thesis by (simp only:)
qed

lemma rnd_in_ints:
  assumes "real_of_int lo \<le> x" "x \<le> real_of_int hi" "\<bar>lo\<bar> \<le> 2 ^ 53" "\<bar>hi\<bar> \<le> 2 ^ 53"
  shows "\<exists>y. rnd x = Fin y \<and> real_of_int lo \<le> y \<and> y \<le> real_of_int hi"
proof -
  have b: "\<bar>real_of_int n\<bar> < 2 ^ 1024" if "\<bar>n\<bar> \<le> 2 ^ 53" for n
  proof -
    have "\<bar>real_of_int n\<bar> \<le> 2 ^ 53"
      using that by (metis of_int_abs of_int_le_iff of_int_numeral of_int_power)
    moreover have "(2::real) ^ 53 < 2 ^ 1024" by simp
    ultimately show ?thesis by linarith
  qed
  from rnd_between [OF assms(1,2) isDouble_int [OF assms(3)] isDouble_int [OF assms(4)]
      b [OF assms(3)] b [OF assms(4)]]
  show ?thesis by blast
qed

lemma rnd_in_pows:
  assumes "1 / 2 ^ k \<le> x" "x \<le> 2 ^ m" "k \<le> 1074" "m < 1024"
  shows "\<exists>y. rnd x = Fin y \<and> 1 / 2 ^ k \<le> y \<and> y \<le> 2 ^ m"
proof -
  have lo: "isDouble (1 / 2 ^ k)"
    using isDouble_dyadic [of 1 k] assms(3) by simp
  have hi: "isDouble (2 ^ m)"
    using isDouble_scaled [of 1 m] by simp
  have "(2::real) ^ m < 2 ^ 1024"
    using assms(4) by (intro power_strict_increasing) simp_all
  moreover have "\<bar>(2::real) ^ m\<bar> = 2 ^ m"
    by (rule abs_of_pos) simp
  ultimately have h: "\<bar>(2::real) ^ m\<bar> < 2 ^ 1024"
    by (simp only:)
  have "(1::real) / 2 ^ k \<le> 1"
    by (simp add: divide_le_eq_1)
  moreover have "(1::real) < 2 ^ 1024"
    by (rule one_less_power) simp_all
  moreover have "\<bar>(1::real) / 2 ^ k\<bar> = 1 / 2 ^ k"
    by (rule abs_of_nonneg) simp
  ultimately have l: "\<bar>(1::real) / 2 ^ k\<bar> < 2 ^ 1024"
    by (simp only:)
  from rnd_between [OF assms(1,2) lo hi l h]
  show ?thesis by blast
qed

lemma calculateEffectiveEV_finite:
  assumes b: "1 / 2 ^ 500 \<le> b" "b \<le> 2 ^ 500"
    and f: "1 / 2 ^ 500 \<le> f" "f \<le> 2 ^ 500"
    and i: "1 / 2 ^ 1000 \<le> i" "i \<le> 2 ^ 1000"
    and c: "\<bar>c\<bar> \<le> 2 ^ 1000"
  shows "\<exists>e. calculateEffectiveEV (Fin b) (Fin i) (Fin c) (Fin f) = Fin e"
proof -
  have bpos: "0 < b"
    using b(1) by (smt (verit) divide_pos_pos zero_less_power)
  have "1 / 2 ^ 500 * (1 / 2 ^ 500) \<le> b * f"
    using b(1) f(1) by (intro mult_mono) simp_all
  moreover have "b * f \<le> 2 ^ 500 * 2 ^ 500"
    using b f bpos by (intro mult_mono) simp_all
  ultimately have "1 / 2 ^ 1000 \<le> b * f" "b * f \<le> 2 ^ 1000"
    by (simp_all add: power_add [symmetric])
  from rnd_in_pows [OF this]
  obtain p where p: "rnd (b * f) = Fin p" "1 / 2 ^ 1000 \<le> p" "p \<le> 2 ^ 1000"
    by auto
  have "1 / 2 ^ 1007 \<le> p / 128" "p / 128 \<le> 2 ^ 993"
    using p(2,3) by simp_all
  from rnd_in_pows [OF this]
  obtain q where q: "rnd (p / 128) = Fin q" "1 / 2 ^ 1007 \<le> q" "q \<le> 2 ^ 993"
    by auto
  have qpos: "0 < q"
    using q(2) by (smt (verit) divide_pos_pos zero_less_power)
  from log2_bounds [OF q(2,3)]
  have "real_of_int (- 1007) \<le> log 2 q" "log 2 q \<le> real_of_int 993"
    by simp_all
  from rnd_in_ints [OF this]
  obtain l1 where l1: "rnd (log 2 q) = Fin l1" "- 1007 \<le> l1" "l1 \<le> 993"
    by auto
  have "real_of_int (- 1000) \<le> 7 + l1" "7 + l1 \<le> real_of_int 1000"
    using l1(2,3) by simp_all
  from rnd_in_ints [OF this]
  obtain t where t: "rnd (7 + l1) = Fin t" "- 1000 \<le> t" "t \<le> 1000"
    by auto
  have "1 / 2 ^ 1007 \<le> i / 100" "i / 100 \<le> 2 ^ 1000"
    using i by (simp_all add: field_simps)
  from rnd_in_pows [OF this]
  obtain r where r: "rnd (i / 100) = Fin r" "1 / 2 ^ 1007 \<le> r" "r \<le> 2 ^ 1000"
    by auto
  have rpos: "0 < r"
    using r(2) by (smt (verit) divide_pos_pos zero_less_power)
  from log2_bounds [OF r(2,3)]
  have "real_of_int (- 1007) \<le> log 2 r" "log 2 r \<le> real_of_int 1000"
    by simp_all
  from rnd_in_ints [OF this]
  obtain l2 where l2: "rnd (log 2 r) = Fin l2" "- 1007 \<le> l2" "l2 \<le> 1000"
    by auto
  have "real_of_int (- 2007) \<le> t + l2" "t + l2 \<le> real_of_int 2000"
    using t(2,3) l2(2,3) by simp_all
  from rnd_in_ints [OF this]
  obtain m where m: "rnd (t + l2) = Fin m" "- 2007 \<le> m" "m \<le> 2000"
    by auto
  have big: "(2007::real) \<le> 2 ^ 1000" by simp
  have "- (2 ^ 1001) \<le> m + c" "m + c \<le> 2 ^ 1001"
    using m(2,3) c big by (simp_all; linarith)+
  moreover have "isDouble (- (2 ^ 1001))" "isDouble (2 ^ 1001)"
    using isDouble_scaled [of 1 1001] isDouble_scaled [of "- 1" 1001] by simp_all
  moreover have "\<bar>- ((2::real) ^ 1001)\<bar> < 2 ^ 1024" "\<bar>(2::real) ^ 1001\<bar> < 2 ^ 1024"
    by simp_all
  ultimately obtain e where e: "rnd (m + c) = Fin e"
    using rnd_between [of "- (2 ^ 1001)" "m + c" "2 ^ 1001"] by blast
  show ?thesis
    using bpos p q qpos l1 t r rpos l2 m e by (simp add: calculateEffectiveEV_sum)
qed


lemma rnd_small:
  assumes "\<bar>nearest x\<bar> \<le> 2 ^ 53"
  shows "rnd x = Fin (nearest x)"
proof -
  have "(2::real) ^ 53 < 2 ^ 1024"
    by (intro power_strict_increasing) simp_all
  with assms have "\<bar>nearest x\<bar> < 2 ^ 1024" by (rule le_less_trans)
  then show ?thesis by (rule rnd_finite)
qed

text \<open>
  Three inputs at which the stated properties fail. With the calibration factor 0 the
  first logarithm is \<open>-Infinity\<close> for every brightness.
\<close>

lemma calculateEffectiveEV_zero_factor:
  assumes "0 < b"
  shows "calculateEffectiveEV (Fin b) (Fin 100) (Fin 0) (Fin 0) = NegInf"
  using assms by (simp add: calculateEffectiveEV_sum log2_values)












text \<open>
  C2, as stated, fails in its second half: with the brightness 128 and the calibration
  factor 0 the result is the sentinel \<open>-Infinity\<close>; and with brightness and factor both
  \<open>2 ^ -600\<close>, both positive, their product underflows to 0 and the result is the
  sentinel again.
\<close>

theorem calculateEffectiveEV_sentinel_at_positive_brightness:
  "calculateEffectiveEV (Fin 128) (Fin 100) (Fin 0) (Fin 0) = NegInf \<and>
   calculateEffectiveEV (Fin (1 / 2 ^ 600)) (Fin 100) (Fin 0) (Fin (1 / 2 ^ 600)) = NegInf"
proof -
  have "rnd (1 / 2 ^ 600 * (1 / 2 ^ 600)) = Fin 0"
    by (rule rnd_underflow) (simp add: power_add [symmetric])
  then have "calculateEffectiveEV (Fin (1 / 2 ^ 600)) (Fin 100) (Fin 0) (Fin (1 / 2 ^ 600)) = NegInf"
    by (simp add: calculateEffectiveEV_sum log2_values)
  then show ?thesis
    by (simp add: calculateEffectiveEV_zero_factor)
qed

text \<open>
  C2, amended: a brightness that is not above 0 gives \<open>-Infinity\<close> for all values of the
  other three arguments, and nothing is raised (the function is total). A positive
  brightness does not exclude the sentinel; the result is a finite number, hence not the
  sentinel, when the brightness and the calibration factor lie between \<open>2 ^ -500\<close> and
  \<open>2 ^ 500\<close>, the ISO value between \<open>2 ^ -1000\<close> and \<open>2 ^ 1000\<close> and the compensation
  between \<open>-2 ^ 1000\<close> and \<open>2 ^ 1000\<close>.
\<close>

theorem calculateEffectiveEV_sentinel:
  "(js_le b0 (Fin 0) \<longrightarrow> calculateEffectiveEV b0 i0 c0 f0 = NegInf) \<and>
   (1 / 2 ^ 500 \<le> b \<and> b \<le> 2 ^ 500 \<and> 1 / 2 ^ 500 \<le> f \<and> f \<le> 2 ^ 500 \<and>
    1 / 2 ^ 1000 \<le> i \<and> i \<le> 2 ^ 1000 \<and> \<bar>c\<bar> \<le> 2 ^ 1000 \<longrightarrow>
      (\<exists>e. calculateEffectiveEV (Fin b) (Fin i) (Fin c) (Fin f) = Fin e))"
proof (intro conjI impI)
  assume "js_le b0 (Fin 0)"
  then show "calculateEffectiveEV b0 i0 c0 f0 = NegInf"
    by (simp add: calculateEffectiveEV_def)
next
  assume "1 / 2 ^ 500 \<le> b \<and> b \<le> 2 ^ 500 \<and> 1 / 2 ^ 500 \<le> f \<and> f \<le> 2 ^ 500 \<and>
    1 / 2 ^ 1000 \<le> i \<and> i \<le> 2 ^ 1000 \<and> \<bar>c\<bar> \<le> 2 ^ 1000"
  then show "\<exists>e. calculateEffectiveEV (Fin b) (Fin i) (Fin c) (Fin f) = Fin e"
    by (intro calculateEffectiveEV_finite) blast+
qed

theorem calculateEffectiveEV_sentinel_witness:
  "calculateEffectiveEV (Fin 0) (Fin 100) (Fin 0) (Fin 1) = NegInf \<and>
   (\<exists>e. calculateEffectiveEV (Fin 128) (Fin 100) (Fin 0) (Fin 1) = Fin e)"
proof -
  have g: "js_le (Fin 0) (Fin 0)" by simp
  have r: "1 / 2 ^ 500 \<le> (128::real) \<and> (128::real) \<le> 2 ^ 500 \<and> 1 / 2 ^ 500 \<le> (1::real) \<and>
      (1::real) \<le> 2 ^ 500 \<and> 1 / 2 ^ 1000 \<le> (100::real) \<and> (100::real) \<le> 2 ^ 1000 \<and>
      \<bar>0::real\<bar> \<le> 2 ^ 1000"
    by simp
  show ?thesis
    using calculateEffectiveEV_sentinel
            [of "Fin 0" "Fin 100" "Fin 0" "Fin 1" 128 1 100 0] g r
    by blast
qed


section \<open>Ties and dyadic bounds\<close>

text \<open>A quotient half-way between two whole numbers goes to the even one.\<close>

lemma roundEven_tie:
  assumes "q = real_of_int n + 1 / 2"
  shows "roundEven q = (if even n then n else n + 1)"
proof -
  have "\<lfloor>q\<rfloor> = n" unfolding assms by linarith
  then show ?thesis
    by (simp add: roundEven_def Let_def assms)
qed

lemma nearest_tie:
  assumes "2 powi e \<le> \<bar>x\<bar>" "\<bar>x\<bar> < 2 powi (e + 1)" "- 1022 \<le> e"
    and "x / 2 powi (e - 52) = real_of_int n + 1 / 2"
  shows "nearest x = of_int (if even n then n else n + 1) * 2 powi (e - 52)"
  using expo_eq [OF assms(1-3)] roundEven_tie [OF assms(4)] by (simp add: nearest_def)

text \<open>A number between two dyadic fractions of at most 53 bits rounds to a number between them.\<close>

lemma rnd_in_dyadic:
  assumes "real_of_int lo / 2 ^ k \<le> x" "x \<le> real_of_int hi / 2 ^ k"
    and "\<bar>lo\<bar> \<le> 2 ^ 53" "\<bar>hi\<bar> \<le> 2 ^ 53" "k \<le> 1074"
  shows "\<exists>y. rnd x = Fin y \<and> real_of_int lo / 2 ^ k \<le> y \<and> y \<le> real_of_int hi / 2 ^ k \<and>
           y = nearest x"
proof -
  have b: "\<bar>real_of_int n / 2 ^ k\<bar> < 2 ^ 1024" if "\<bar>n\<bar> \<le> 2 ^ 53" for n
  proof -
    have "\<bar>real_of_int n\<bar> \<le> 2 ^ 53"
      using that by (metis of_int_abs of_int_le_iff of_int_numeral of_int_power)
    moreover have "\<bar>real_of_int n / 2 ^ k\<bar> \<le> \<bar>real_of_int n\<bar>"
      by (simp add: divide_le_eq_1 field_simps mult_le_cancel_left1)
    moreover have "(2::real) ^ 53 < 2 ^ 1024" by simp
    ultimately show ?thesis by linarith
  qed
  from rnd_within [OF assms(1,2) isDouble_dyadic [OF assms(3,5)] isDouble_dyadic [OF assms(4,5)]
      b [OF assms(3)] b [OF assms(4)]]
  show ?thesis by blast
qed

text \<open>The literals 0.1 and 6.9.\<close>

lemma lit_0_1: "lit 0.1 = Fin (3602879701896397 / 2 ^ 55)"
proof -
  have "nearest (1 / 10) = of_int 7205759403792794 * 2 powi (- 4 - 52)"
    by (rule nearest_eval) simp_all
  then have n: "nearest (1 / 10) = 3602879701896397 / 2 ^ 55"
    by simp
  show ?thesis
    unfolding lit_def using rnd_small [of "1 / 10"] by (simp add: n)
qed

lemma lit_6_9: "lit 6.9 = Fin (7768709357214106 / 2 ^ 50)"
proof -
  have "nearest (69 / 10) = of_int 7768709357214106 * 2 powi (2 - 52)"
    by (rule nearest_eval) simp_all
  then have n: "nearest (69 / 10) = 7768709357214106 / 2 ^ 50"
    by simp
  show ?thesis
    unfolding lit_def using rnd_small [of "69 / 10"] by (simp add: n)
qed

text \<open>
  One step of the smoother from 7 towards 6 with the weight 0.1: the products are
  \<open>7 * 0.9\<close> and \<open>6 * 0.1\<close>, each rounded, and their rounded sum is the number 6.9.
\<close>

lemma smooth_7_towards_6:
  "js_add (js_mul (Fin 7) (js_sub (Fin 1) (lit 0.1))) (js_mul (Fin 6) (lit 0.1)) = lit 6.9"
proof -
  have "nearest (1 + - (3602879701896397 / 2 ^ 55)) = of_int 8106479329266893 * 2 powi (- 1 - 52)"
    by (rule nearest_eval) simp_all
  then have "nearest (1 + - (3602879701896397 / 2 ^ 55)) = 8106479329266893 / 2 ^ 53"
    by simp
  then have a: "rnd (1 + - (3602879701896397 / 2 ^ 55)) = Fin (8106479329266893 / 2 ^ 53)"
    using rnd_small [of "1 + - (3602879701896397 / 2 ^ 55)"] by simp
  have "nearest (7 * (8106479329266893 / 2 ^ 53)) = of_int 7093169413108531 * 2 powi (2 - 52)"
    by (rule nearest_eval) simp_all
  then have "nearest (7 * (8106479329266893 / 2 ^ 53)) = 7093169413108531 / 2 ^ 50"
    by simp
  then have b: "rnd (7 * (8106479329266893 / 2 ^ 53)) = Fin (7093169413108531 / 2 ^ 50)"
    using rnd_small [of "7 * (8106479329266893 / 2 ^ 53)"] by simp
  have "nearest (6 * (3602879701896397 / 2 ^ 55)) =
          of_int (if even (5404319552844595::int) then 5404319552844595 else 5404319552844595 + 1)
            * 2 powi (- 1 - 52)"
    by (rule nearest_tie) simp_all
  then have "nearest (6 * (3602879701896397 / 2 ^ 55)) = 5404319552844596 / 2 ^ 53"
    by simp
  then have c: "rnd (6 * (3602879701896397 / 2 ^ 55)) = Fin (5404319552844596 / 2 ^ 53)"
    using rnd_small [of "6 * (3602879701896397 / 2 ^ 55)"] by simp
  have "nearest (7093169413108531 / 2 ^ 50 + 5404319552844596 / 2 ^ 53) =
          of_int (if even (7768709357214105::int) then 7768709357214105 else 7768709357214105 + 1)
            * 2 powi (2 - 52)"
    by (rule nearest_tie) simp_all
  then have "nearest (7093169413108531 / 2 ^ 50 + 5404319552844596 / 2 ^ 53) =
          7768709357214106 / 2 ^ 50"
    by simp
  then have d: "rnd (7093169413108531 / 2 ^ 50 + 5404319552844596 / 2 ^ 53) =
          Fin (7768709357214106 / 2 ^ 50)"
    using rnd_small [of "7093169413108531 / 2 ^ 50 + 5404319552844596 / 2 ^ 53"] by simp
  show ?thesis
    using a b c d by (simp add: lit_0_1 lit_6_9 js_sub_def)
qed


section \<open>Properties of the candidate table\<close>

text \<open>
  Every shutter speed of the list is a finite number from \<open>2 ^ -10\<close> to 1, every aperture a
  finite number from 1 to 32, and every \<open>ev\<close> of the table a finite number from 0 to 20.
\<close>

lemma standardShutterSpeeds_range:
  assumes "s \<in> set standardShutterSpeeds"
  shows "\<exists>x. s = Fin x \<and> 1 / 2 ^ 10 \<le> x \<and> x \<le> 2 ^ 0"
proof -
  have r: "\<exists>x. rnd (1 / d) = Fin x \<and> 1 / 2 ^ 10 \<le> x \<and> x \<le> 2 ^ 0"
    if "1 \<le> d" "d \<le> 1024" for d :: real
  proof -
    have "1 / 2 ^ 10 \<le> 1 / d" "1 / d \<le> 2 ^ 0"
      using that by (simp_all add: field_simps)
    from rnd_in_pows [OF this] show ?thesis by simp
  qed
  have one: "\<exists>x. Fin 1 = Fin x \<and> 1 / 2 ^ 10 \<le> x \<and> x \<le> 2 ^ 0"
    by simp
  from assms consider "s = js_div (Fin 1) (Fin 1000)" | "s = js_div (Fin 1) (Fin 500)"
    | "s = js_div (Fin 1) (Fin 250)" | "s = js_div (Fin 1) (Fin 125)"
    | "s = js_div (Fin 1) (Fin 60)" | "s = js_div (Fin 1) (Fin 30)"
    | "s = js_div (Fin 1) (Fin 15)" | "s = js_div (Fin 1) (Fin 8)"
    | "s = js_div (Fin 1) (Fin 4)" | "s = js_div (Fin 1) (Fin 2)" | "s = Fin 1"
    unfolding standardShutterSpeeds_def by auto
  then show ?thesis
    using r [of 1000] r [of 500] r [of 250] r [of 125] r [of 60] r [of 30] r [of 15] r [of 8]
      r [of 4] r [of 2] one
    by cases simp_all
qed

lemma standardApertures_range:
  assumes "a \<in> set standardApertures"
  shows "\<exists>y. a = Fin y \<and> 1 / 2 ^ 0 \<le> y \<and> y \<le> 2 ^ 5"
proof -
  have r: "\<exists>y. rnd d = Fin y \<and> 1 / 2 ^ 0 \<le> y \<and> y \<le> 2 ^ 5"
    if "1 \<le> d" "d \<le> 32" for d :: real
  proof -
    have "1 / 2 ^ 0 \<le> d" "d \<le> 2 ^ 5"
      using that by simp_all
    from rnd_in_pows [OF this] show ?thesis by simp
  qed
  have w: "\<exists>y. Fin d = Fin y \<and> 1 / 2 ^ 0 \<le> y \<and> y \<le> 2 ^ 5"
    if "1 \<le> d" "d \<le> 32" for d :: real
    using that by simp
  from assms consider "a = lit 1.4" | "a = Fin 2" | "a = lit 2.8" | "a = Fin 4" | "a = lit 5.6"
    | "a = Fin 8" | "a = Fin 11" | "a = Fin 16" | "a = Fin 22"
    unfolding standardApertures_def by auto
  then show ?thesis
    using r [of "1.4"] r [of "2.8"] r [of "5.6"] w [of 2] w [of 4] w [of 8] w [of 11] w [of 16]
      w [of 22]
    by cases (simp_all add: lit_def)
qed

lemma table_member:
  "k \<in> set shutterApertureEV \<longleftrightarrow>
     (\<exists>s\<in>set standardShutterSpeeds. \<exists>a\<in>set standardApertures.
        k = \<lparr>shutter = s, aperture = a, ev = js_log2 (js_div (js_mul a a) s)\<rparr>)"
  by (auto simp add: shutterApertureEV_def)

lemma table_ev_finite:
  assumes "k \<in> set shutterApertureEV"
  shows "\<exists>x. ev k = Fin x \<and> 0 \<le> x \<and> x \<le> 20"
proof -
  from assms obtain s a where s: "s \<in> set standardShutterSpeeds"
    and a: "a \<in> set standardApertures"
    and k: "k = \<lparr>shutter = s, aperture = a, ev = js_log2 (js_div (js_mul a a) s)\<rparr>"
    unfolding table_member by blast
  from standardShutterSpeeds_range [OF s]
  obtain x where x: "s = Fin x" "1 / 2 ^ 10 \<le> x" "x \<le> 1" by auto
  from standardApertures_range [OF a]
  obtain y where y: "a = Fin y" "1 \<le> y" "y \<le> 2 ^ 5" by auto
  have xpos: "0 < x" using x(2) by (smt (verit) divide_pos_pos zero_less_power)
  have "1 * 1 \<le> y * y" "y * y \<le> 2 ^ 5 * 2 ^ 5"
    using y(2,3) by (intro mult_mono; simp)+
  then have "1 / 2 ^ 0 \<le> y * y" "y * y \<le> 2 ^ 10"
    by simp_all
  from rnd_in_pows [OF this]
  obtain p where p: "rnd (y * y) = Fin p" "1 \<le> p" "p \<le> 2 ^ 10" by auto
  have "p / x \<le> 2 ^ 10 / (1 / 2 ^ 10)"
    using p(2,3) x(2) xpos by (intro frac_le) simp_all
  moreover have "1 \<le> p / x"
    using p(2) x(3) xpos by (simp add: pos_le_divide_eq)
  ultimately have "1 / 2 ^ 0 \<le> p / x" "p / x \<le> 2 ^ 20"
    by simp_all
  from rnd_in_pows [OF this]
  obtain w where w: "rnd (p / x) = Fin w" "1 / 2 ^ 0 \<le> w" "w \<le> 2 ^ 20" by auto
  have wpos: "0 < w" using w(2) by simp
  from log2_bounds [OF w(2,3)]
  have "real_of_int 0 \<le> log 2 w" "log 2 w \<le> real_of_int 20" by simp_all
  from rnd_in_ints [OF this]
  obtain l where l: "rnd (log 2 w) = Fin l" "0 \<le> l" "l \<le> 20" by auto
  have "x \<noteq> 0" using xpos by simp
  then show ?thesis
    using k x(1) y(1) p(1) w(1) wpos l by simp
qed

lemma table_length: "length shutterApertureEV = 99"
  by (simp add: shutterApertureEV_def standardShutterSpeeds_def standardApertures_def)

lemma table_shutter: "k \<in> set shutterApertureEV \<Longrightarrow> shutter k \<in> set standardShutterSpeeds"
  unfolding table_member by auto

lemma filtered_ev_finite:
  "\<forall>k\<in>set (filter P shutterApertureEV). \<exists>x. ev k = Fin x \<and> 0 \<le> x \<and> x \<le> 20"
  using table_ev_finite by simp

text \<open>The aperture 2.8 and the shutter speed 1/125 each select candidates.\<close>

lemma aperture_2_8_present:
  "filter (\<lambda>k. js_eq (candidate.aperture k) (lit 2.8)) shutterApertureEV \<noteq> []"
proof -
  let ?k = "\<lparr>shutter = Fin 1, aperture = lit 2.8,
              ev = js_log2 (js_div (js_mul (lit 2.8) (lit 2.8)) (Fin 1))\<rparr>"
  have "?k \<in> set shutterApertureEV"
    unfolding table_member by (simp add: standardShutterSpeeds_def standardApertures_def)
  moreover have "js_eq (candidate.aperture ?k) (lit 2.8)"
    by (simp add: js_eq_def lit_def)
  ultimately show ?thesis
    unfolding filter_empty_conv by blast
qed

lemma shutter_125_present:
  "filter (\<lambda>k. js_eq (shutter k) (js_div (Fin 1) (Fin 125))) shutterApertureEV \<noteq> []"
proof -
  let ?k = "\<lparr>shutter = js_div (Fin 1) (Fin 125), aperture = Fin 2,
              ev = js_log2 (js_div (js_mul (Fin 2) (Fin 2)) (js_div (Fin 1) (Fin 125)))\<rparr>"
  have "?k \<in> set shutterApertureEV"
    unfolding table_member by (simp add: standardShutterSpeeds_def standardApertures_def)
  moreover have "js_eq (shutter ?k) (js_div (Fin 1) (Fin 125))"
    by (simp add: js_eq_def)
  ultimately show ?thesis
    unfolding filter_empty_conv by blast
qed


section \<open>Properties of the scan\<close>

text \<open>
  The largest finite number is \<open>2 ^ 1024 - 2 ^ 971\<close>: a binary64 value below \<open>2 ^ 1024\<close> in
  magnitude is at most that.
\<close>

lemma double_max:
  assumes "isDouble d" "\<bar>d\<bar> < 2 ^ 1024"
  shows "\<bar>d\<bar> \<le> 2 ^ 1024 - 2 ^ 971"
proof -
  define P :: real where "P = 2 ^ 971"
  have Ppos: "0 < P" by (simp add: P_def)
  have top: "(2::real) ^ 1024 = 2 ^ 53 * P"
    unfolding P_def by (simp only: power_add [symmetric]) simp
  from assms(1) obtain m j where m: "\<bar>m\<bar> \<le> 2 ^ 53" and j: "- 1074 \<le> j"
    and d: "d = of_int m * 2 powi j"
    unfolding isDouble_def by blast
  have mr: "\<bar>real_of_int m\<bar> \<le> 2 ^ 53"
    using m by (metis of_int_abs of_int_le_iff of_int_numeral of_int_power)
  have ad: "\<bar>d\<bar> = \<bar>real_of_int m\<bar> * 2 powi j"
    by (simp add: d abs_mult)
  have "\<bar>d\<bar> \<le> (2 ^ 53 - 1) * P"
  proof (cases "j \<le> 970")
    case True
    have "(2::real) powi j \<le> 2 powi 970"
      using True by (intro power_int_increasing) simp_all
    also have "\<dots> = 2 ^ 970" by simp
    finally have "(2::real) powi j \<le> 2 ^ 970" .
    then have "\<bar>real_of_int m\<bar> * 2 powi j \<le> 2 ^ 53 * 2 ^ 970"
      using mr by (intro mult_mono) simp_all
    moreover have "P = 2 * 2 ^ 970"
      unfolding P_def by (simp only: power_Suc [symmetric]) simp
    ultimately show ?thesis
      using ad by simp
  next
    case False
    define n where "n = nat (j - 971)"
    have jn: "j = int n + 971" using False by (simp add: n_def)
    have pj: "(2::real) powi j = 2 ^ n * P"
      unfolding jn P_def by (simp add: power_int_add)
    define K where "K = \<bar>m\<bar> * 2 ^ n"
    have dK: "\<bar>d\<bar> = real_of_int K * P"
      by (simp add: ad pj K_def)
    have "real_of_int K * P < 2 ^ 53 * P"
      using assms(2) dK top by simp
    then have "real_of_int K < 2 ^ 53"
      using Ppos by simp
    then have "K < 2 ^ 53"
      by (metis of_int_less_iff of_int_numeral of_int_power)
    then have "K \<le> 2 ^ 53 - 1" by simp
    then have "real_of_int K \<le> real_of_int (2 ^ 53 - 1)"
      by (simp only: of_int_le_iff)
    then have "real_of_int K \<le> 2 ^ 53 - 1" by simp
    then have "real_of_int K * P \<le> (2 ^ 53 - 1) * P"
      using Ppos by (intro mult_right_mono) simp_all
    then show ?thesis using dK by simp
  qed
  also have "\<dots> = 2 ^ 1024 - 2 ^ 971"
    unfolding top by (simp add: P_def algebra_simps)
  finally show ?thesis .
qed

text \<open>
  The distance the scan computes between a table \<open>ev\<close> and a finite target is finite: the
  subtraction cannot overflow.
\<close>

lemma distance_finite:
  assumes "isDouble e" "\<bar>e\<bar> < 2 ^ 1024" "0 \<le> x" "x \<le> 20"
  shows "\<exists>y. js_abs (js_sub (Fin x) (Fin e)) = Fin y"
proof -
  have "\<bar>(x - e) - nearest (x - e)\<bar> \<le> \<bar>(x - e) - (- e)\<bar>"
    using assms(1) by (intro nearest_best isDouble_minus)
  then have "\<bar>nearest (x - e)\<bar> \<le> \<bar>e\<bar> + 40"
    using assms(3,4) by simp
  moreover have "\<bar>e\<bar> \<le> 2 ^ 1024 - 2 ^ 971"
    using assms(1,2) by (rule double_max)
  moreover have "(40::real) < 2 ^ 971"
  proof -
    have "(40::real) < 2 ^ 6" by simp
    also have "\<dots> < 2 ^ 971" by (intro power_strict_increasing) simp_all
    finally show ?thesis .
  qed
  ultimately have "\<bar>nearest (x - e)\<bar> < 2 ^ 1024"
    by linarith
  then have "rnd (x - e) = Fin (nearest (x - e))"
    by (rule rnd_finite)
  then show ?thesis
    by (simp add: js_sub_def)
qed

text \<open>What the calculator returns, when finite, is a binary64 value.\<close>

lemma js_add_double:
  assumes "js_add a b = Fin e"
  shows "isDouble e \<and> \<bar>e\<bar> < 2 ^ 1024"
  using assms rnd_fin by (cases a; cases b) auto

lemma calculateEffectiveEV_double:
  assumes "calculateEffectiveEV b i c f = Fin e"
  shows "isDouble e \<and> \<bar>e\<bar> < 2 ^ 1024"
proof (cases "js_le b (Fin 0)")
  case True
  then show ?thesis
    using assms by (simp add: calculateEffectiveEV_def)
next
  case False
  then show ?thesis
    using assms js_add_double by (simp add: calculateEffectiveEV_def Let_def)
qed

text \<open>
  The invariant of the scan, for candidates at finite distances \<open>dst k\<close> from the target
  and a finite current minimum \<open>m\<close>: either no candidate is strictly nearer than \<open>m\<close> and
  the current choice stays, or the result is the first candidate, in list order, whose
  distance is smallest.
\<close>

lemma scan_first_min:
  assumes "\<forall>k\<in>set cs. js_abs (js_sub (ev k) t) = Fin (dst k)"
  shows "(scanCandidates t cs acc (Fin m) = acc \<and> (\<forall>k\<in>set cs. m \<le> dst k)) \<or>
         (\<exists>pre k post. cs = pre @ k # post \<and> scanCandidates t cs acc (Fin m) = Some k \<and>
            dst k < m \<and> (\<forall>k'\<in>set pre. dst k < dst k') \<and>
            (\<forall>k'\<in>set post. dst k \<le> dst k'))"
  using assms
proof (induction cs arbitrary: acc m)
  case Nil
  then show ?case by simp
next
  case (Cons c cs)
  have c: "js_abs (js_sub (ev c) t) = Fin (dst c)"
    and rest: "\<forall>k\<in>set cs. js_abs (js_sub (ev k) t) = Fin (dst k)"
    using Cons.prems by simp_all
  show ?case
  proof (cases "dst c < m")
    case True
    then have step: "scanCandidates t (c # cs) acc (Fin m) =
                     scanCandidates t cs (Some c) (Fin (dst c))"
      using c by simp
    from Cons.IH [OF rest, of "Some c" "dst c"]
    show ?thesis
    proof (elim disjE conjE exE)
      assume a: "scanCandidates t cs (Some c) (Fin (dst c)) = Some c"
        and b: "\<forall>k\<in>set cs. dst c \<le> dst k"
      have "c # cs = [] @ c # cs \<and> scanCandidates t (c # cs) acc (Fin m) = Some c \<and>
            dst c < m \<and> (\<forall>k'\<in>set []. dst c < dst k') \<and>
            (\<forall>k'\<in>set cs. dst c \<le> dst k')"
        using a b True step by simp
      then show ?thesis by blast
    next
      fix pre k post
      assume a: "cs = pre @ k # post"
        and b: "scanCandidates t cs (Some c) (Fin (dst c)) = Some k"
        and d: "dst k < dst c"
        and f: "\<forall>k'\<in>set pre. dst k < dst k'"
        and g: "\<forall>k'\<in>set post. dst k \<le> dst k'"
      have "c # cs = (c # pre) @ k # post \<and> scanCandidates t (c # cs) acc (Fin m) = Some k \<and>
            dst k < m \<and> (\<forall>k'\<in>set (c # pre). dst k < dst k') \<and>
            (\<forall>k'\<in>set post. dst k \<le> dst k')"
        using a b d f g True step by simp
      then show ?thesis by blast
    qed
  next
    case False
    then have step: "scanCandidates t (c # cs) acc (Fin m) = scanCandidates t cs acc (Fin m)"
      using c by simp
    from Cons.IH [OF rest, of acc m]
    show ?thesis
    proof (elim disjE conjE exE)
      assume a: "scanCandidates t cs acc (Fin m) = acc"
        and b: "\<forall>k\<in>set cs. m \<le> dst k"
      then show ?thesis using False step by simp
    next
      fix pre k post
      assume a: "cs = pre @ k # post"
        and b: "scanCandidates t cs acc (Fin m) = Some k"
        and d: "dst k < m"
        and f: "\<forall>k'\<in>set pre. dst k < dst k'"
        and g: "\<forall>k'\<in>set post. dst k \<le> dst k'"
      have "c # cs = (c # pre) @ k # post \<and> scanCandidates t (c # cs) acc (Fin m) = Some k \<and>
            dst k < m \<and> (\<forall>k'\<in>set (c # pre). dst k < dst k') \<and>
            (\<forall>k'\<in>set post. dst k \<le> dst k')"
        using a b d f g False step by simp
      then show ?thesis by blast
    qed
  qed
qed

text \<open>
  Against a target that is not finite (\<open>-Infinity\<close>, \<open>Infinity\<close> or \<open>NaN\<close>) every distance
  is \<open>Infinity\<close> or \<open>NaN\<close>, never below the initial \<open>minDiff = Infinity\<close>: nothing is chosen.
\<close>

lemma scan_not_finite:
  assumes "\<forall>k\<in>set cs. \<exists>x. ev k = Fin x \<and> 0 \<le> x \<and> x \<le> 20" and "\<forall>y. effEV \<noteq> Fin y"
  shows "scanCandidates effEV cs acc PosInf = acc"
  using assms(1)
proof (induction cs)
  case Nil
  then show ?case by simp
next
  case (Cons c cs)
  then obtain x where x: "ev c = Fin x" by auto
  have "\<not> js_lt (js_abs (js_sub (ev c) effEV)) PosInf"
    using assms(2) x by (cases effEV) (simp_all add: js_sub_def)
  then show ?case using Cons by simp
qed

text \<open>From the initial \<open>null\<close> and \<open>Infinity\<close>, on a list that is not empty.\<close>

lemma scan_from_start:
  assumes fin: "\<forall>k\<in>set cs. js_abs (js_sub (ev k) t) = Fin (dst k)" and ne: "cs \<noteq> []"
  shows "\<exists>pre k post. cs = pre @ k # post \<and>
           scanCandidates t cs None PosInf = Some k \<and>
           (\<forall>k'\<in>set pre. dst k < dst k') \<and>
           (\<forall>k'\<in>set post. dst k \<le> dst k')"
proof -
  from ne obtain c rest where cs: "cs = c # rest" by (cases cs) auto
  have c: "js_abs (js_sub (ev c) t) = Fin (dst c)"
    and rest: "\<forall>k\<in>set rest. js_abs (js_sub (ev k) t) = Fin (dst k)"
    using fin cs by simp_all
  have step: "scanCandidates t cs None PosInf = scanCandidates t rest (Some c) (Fin (dst c))"
    using c cs by simp
  from scan_first_min [OF rest, of "Some c" "dst c"]
  show ?thesis
  proof (elim disjE conjE exE)
    assume a: "scanCandidates t rest (Some c) (Fin (dst c)) = Some c"
      and b: "\<forall>k\<in>set rest. dst c \<le> dst k"
    have "cs = [] @ c # rest \<and> scanCandidates t cs None PosInf = Some c \<and>
          (\<forall>k'\<in>set []. dst c < dst k') \<and>
          (\<forall>k'\<in>set rest. dst c \<le> dst k')"
      using a b cs step by simp
    then show ?thesis by blast
  next
    fix pre k post
    assume a: "rest = pre @ k # post"
      and b: "scanCandidates t rest (Some c) (Fin (dst c)) = Some k"
      and d: "dst k < dst c"
      and f: "\<forall>k'\<in>set pre. dst k < dst k'"
      and g: "\<forall>k'\<in>set post. dst k \<le> dst k'"
    have "cs = (c # pre) @ k # post \<and> scanCandidates t cs None PosInf = Some k \<and>
          (\<forall>k'\<in>set (c # pre). dst k < dst k') \<and>
          (\<forall>k'\<in>set post. dst k \<le> dst k')"
      using a b d f g cs step by simp
    then show ?thesis by blast
  qed
qed

text \<open>The same in terms of the distances the code computes, for a finite target.\<close>

lemma scan_closest:
  assumes fin: "\<forall>k\<in>set cs. \<exists>x. ev k = Fin x \<and> 0 \<le> x \<and> x \<le> 20" and ne: "cs \<noteq> []"
    and e: "isDouble e" "\<bar>e\<bar> < 2 ^ 1024"
  shows "\<exists>pre k post. cs = pre @ k # post \<and>
           scanCandidates (Fin e) cs None PosInf = Some k \<and>
           (\<exists>y. js_abs (js_sub (ev k) (Fin e)) = Fin y) \<and>
           (\<forall>k'\<in>set pre. js_lt (js_abs (js_sub (ev k) (Fin e))) (js_abs (js_sub (ev k') (Fin e)))) \<and>
           (\<forall>k'\<in>set post. js_le (js_abs (js_sub (ev k) (Fin e))) (js_abs (js_sub (ev k') (Fin e))))"
proof -
  have "\<forall>k\<in>set cs. \<exists>y. js_abs (js_sub (ev k) (Fin e)) = Fin y"
  proof
    fix k assume "k \<in> set cs"
    with fin obtain x where "ev k = Fin x" "0 \<le> x" "x \<le> 20" by blast
    then show "\<exists>y. js_abs (js_sub (ev k) (Fin e)) = Fin y"
      using distance_finite [OF e] by simp
  qed
  then obtain dst where dst: "\<forall>k\<in>set cs. js_abs (js_sub (ev k) (Fin e)) = Fin (dst k)"
    using bchoice [of "set cs" "\<lambda>k y. js_abs (js_sub (ev k) (Fin e)) = Fin y"] by blast
  from scan_from_start [OF dst ne]
  obtain pre k post where cs: "cs = pre @ k # post"
    and r: "scanCandidates (Fin e) cs None PosInf = Some k"
    and f: "\<forall>k'\<in>set pre. dst k < dst k'"
    and g: "\<forall>k'\<in>set post. dst k \<le> dst k'"
    by blast
  have "k \<in> set cs" "set pre \<subseteq> set cs" "set post \<subseteq> set cs"
    using cs by auto
  then have "(\<exists>y. js_abs (js_sub (ev k) (Fin e)) = Fin y) \<and>
           (\<forall>k'\<in>set pre. js_lt (js_abs (js_sub (ev k) (Fin e))) (js_abs (js_sub (ev k') (Fin e)))) \<and>
           (\<forall>k'\<in>set post. js_le (js_abs (js_sub (ev k) (Fin e))) (js_abs (js_sub (ev k') (Fin e))))"
    using f g dst by (simp add: subset_iff)
  with cs r show ?thesis by blast
qed


section \<open>Properties of the exposure resolver\<close>

text \<open>
  C3, as stated, fails: the effective EV \<open>-Infinity\<close> is the value the calculator returns
  for the brightness 0; the candidates with the shutter speed 1/125 are not empty, yet
  the scan chooses none of them and the resolver returns the aperture 0.
\<close>

theorem resolver_misses_at_sentinel:
  "filter (\<lambda>k. js_eq (shutter k) (js_div (Fin 1) (Fin 125))) shutterApertureEV \<noteq> [] \<and>
   calculateEffectiveEV (Fin 0) (Fin 100) (Fin 0) (Fin 1) = NegInf \<and>
   scanCandidates NegInf
     (filter (\<lambda>k. js_eq (shutter k) (js_div (Fin 1) (Fin 125))) shutterApertureEV)
     None PosInf = None \<and>
   aperture (calculateExposureShutterPriority (Fin 0) (Fin 100) (Fin 0)
               (js_div (Fin 1) (Fin 125)) (Fin 1))
     = Fin 0"
proof -
  have ev: "calculateEffectiveEV (Fin 0) (Fin 100) (Fin 0) (Fin 1) = NegInf"
    by (simp add: calculateEffectiveEV_def)
  have sc: "scanCandidates NegInf
              (filter (\<lambda>k. js_eq (shutter k) (js_div (Fin 1) (Fin 125))) shutterApertureEV)
              None PosInf
            = None"
    by (rule scan_not_finite [OF filtered_ev_finite]) simp
  have "aperture (calculateExposureShutterPriority (Fin 0) (Fin 100) (Fin 0)
               (js_div (Fin 1) (Fin 125)) (Fin 1)) = Fin 0"
    unfolding calculateExposureShutterPriority_def Let_def ev sc by simp
  with shutter_125_present ev sc show ?thesis by blast
qed

text \<open>
  C3, amended. When the effective EV is a finite number \<open>e\<close>: for every chosen value \<open>v\<close>
  of the fixed axis such that the candidates whose fixed-axis value equals \<open>v\<close> are not
  empty, the resolver (shutter priority and aperture priority alike) returns the shutter
  speed and the aperture of a candidate \<open>k\<close> of that subset, with \<open>evDifference\<close> the
  computed \<open>k.ev - e\<close>; the computed distance \<open>abs(k.ev - e)\<close> is finite, every earlier
  candidate of the subset, in table order, is strictly farther and every later one at
  least as far, so \<open>k\<close> is the first candidate at the smallest distance. When the
  effective EV is not a finite number (\<open>-Infinity\<close> for a brightness of 0 or less,
  \<open>Infinity\<close> or \<open>NaN\<close>), no candidate is selected: the resolver returns the chosen value
  on the fixed axis, the value 0 on the other axis and the \<open>evDifference\<close> 0. The result is
  a function of the inputs.
\<close>

theorem resolver_first_closest:
  assumes "calculateEffectiveEV b i c f = Fin e"
  shows "(filter (\<lambda>k. js_eq (shutter k) v) shutterApertureEV \<noteq> [] \<longrightarrow>
           (\<exists>pre k post.
              filter (\<lambda>k. js_eq (shutter k) v) shutterApertureEV = pre @ k # post \<and>
              shutterSpeed (calculateExposureShutterPriority b i c v f) = shutter k \<and>
              aperture (calculateExposureShutterPriority b i c v f) = candidate.aperture k \<and>
              evDifference (calculateExposureShutterPriority b i c v f) = js_sub (ev k) (Fin e) \<and>
              (\<exists>y. js_abs (js_sub (ev k) (Fin e)) = Fin y) \<and>
              (\<forall>k'\<in>set pre. js_lt (js_abs (js_sub (ev k) (Fin e)))
                                   (js_abs (js_sub (ev k') (Fin e)))) \<and>
              (\<forall>k'\<in>set post. js_le (js_abs (js_sub (ev k) (Fin e)))
                                    (js_abs (js_sub (ev k') (Fin e)))))) \<and>
         (filter (\<lambda>k. js_eq (candidate.aperture k) v) shutterApertureEV \<noteq> [] \<longrightarrow>
           (\<exists>pre k post.
              filter (\<lambda>k. js_eq (candidate.aperture k) v) shutterApertureEV = pre @ k # post \<and>
              shutterSpeed (calculateExposureAperturePriority b i c v f) = shutter k \<and>
              aperture (calculateExposureAperturePriority b i c v f) = candidate.aperture k \<and>
              evDifference (calculateExposureAperturePriority b i c v f) = js_sub (ev k) (Fin e) \<and>
              (\<exists>y. js_abs (js_sub (ev k) (Fin e)) = Fin y) \<and>
              (\<forall>k'\<in>set pre. js_lt (js_abs (js_sub (ev k) (Fin e)))
                                   (js_abs (js_sub (ev k') (Fin e)))) \<and>
              (\<forall>k'\<in>set post. js_le (js_abs (js_sub (ev k) (Fin e)))
                                    (js_abs (js_sub (ev k') (Fin e)))))) \<and>
         ((\<forall>y. calculateEffectiveEV b' i' c' f' \<noteq> Fin y) \<longrightarrow>
            shutterSpeed (calculateExposureShutterPriority b' i' c' v' f') = v' \<and>
            aperture (calculateExposureShutterPriority b' i' c' v' f') = Fin 0 \<and>
            evDifference (calculateExposureShutterPriority b' i' c' v' f') = Fin 0 \<and>
            shutterSpeed (calculateExposureAperturePriority b' i' c' v' f') = Fin 0 \<and>
            aperture (calculateExposureAperturePriority b' i' c' v' f') = v' \<and>
            evDifference (calculateExposureAperturePriority b' i' c' v' f') = Fin 0)"
proof (intro conjI impI)
  let ?cs = "filter (\<lambda>k. js_eq (shutter k) v) shutterApertureEV"
  assume ne: "?cs \<noteq> []"
  from calculateEffectiveEV_double [OF assms]
  have e: "isDouble e" "\<bar>e\<bar> < 2 ^ 1024" by simp_all
  from scan_closest [OF filtered_ev_finite ne e]
  obtain pre k post where cs: "?cs = pre @ k # post"
    and r: "scanCandidates (Fin e) ?cs None PosInf = Some k"
    and d: "\<exists>y. js_abs (js_sub (ev k) (Fin e)) = Fin y"
    and f: "\<forall>k'\<in>set pre. js_lt (js_abs (js_sub (ev k) (Fin e)))
                                (js_abs (js_sub (ev k') (Fin e)))"
    and g: "\<forall>k'\<in>set post. js_le (js_abs (js_sub (ev k) (Fin e)))
                                 (js_abs (js_sub (ev k') (Fin e)))"
    by blast
  have "k \<in> set ?cs" using cs by simp
  then have kv: "shutter k = v" by (simp add: js_eq_def)
  have "shutterSpeed (calculateExposureShutterPriority b i c v f) = shutter k \<and>
        aperture (calculateExposureShutterPriority b i c v f) = candidate.aperture k \<and>
        evDifference (calculateExposureShutterPriority b i c v f) = js_sub (ev k) (Fin e)"
    using assms r kv by (simp add: calculateExposureShutterPriority_def Let_def)
  with cs d f g show "\<exists>pre k post. ?cs = pre @ k # post \<and>
              shutterSpeed (calculateExposureShutterPriority b i c v f) = shutter k \<and>
              aperture (calculateExposureShutterPriority b i c v f) = candidate.aperture k \<and>
              evDifference (calculateExposureShutterPriority b i c v f) = js_sub (ev k) (Fin e) \<and>
              (\<exists>y. js_abs (js_sub (ev k) (Fin e)) = Fin y) \<and>
              (\<forall>k'\<in>set pre. js_lt (js_abs (js_sub (ev k) (Fin e)))
                                   (js_abs (js_sub (ev k') (Fin e)))) \<and>
              (\<forall>k'\<in>set post. js_le (js_abs (js_sub (ev k) (Fin e)))
                                    (js_abs (js_sub (ev k') (Fin e))))"
    by blast
next
  let ?cs = "filter (\<lambda>k. js_eq (candidate.aperture k) v) shutterApertureEV"
  assume ne: "?cs \<noteq> []"
  from calculateEffectiveEV_double [OF assms]
  have e: "isDouble e" "\<bar>e\<bar> < 2 ^ 1024" by simp_all
  from scan_closest [OF filtered_ev_finite ne e]
  obtain pre k post where cs: "?cs = pre @ k # post"
    and r: "scanCandidates (Fin e) ?cs None PosInf = Some k"
    and d: "\<exists>y. js_abs (js_sub (ev k) (Fin e)) = Fin y"
    and f: "\<forall>k'\<in>set pre. js_lt (js_abs (js_sub (ev k) (Fin e)))
                                (js_abs (js_sub (ev k') (Fin e)))"
    and g: "\<forall>k'\<in>set post. js_le (js_abs (js_sub (ev k) (Fin e)))
                                 (js_abs (js_sub (ev k') (Fin e)))"
    by blast
  have "k \<in> set ?cs" using cs by simp
  then have kv: "candidate.aperture k = v" by (simp add: js_eq_def)
  have "shutterSpeed (calculateExposureAperturePriority b i c v f) = shutter k \<and>
        aperture (calculateExposureAperturePriority b i c v f) = candidate.aperture k \<and>
        evDifference (calculateExposureAperturePriority b i c v f) = js_sub (ev k) (Fin e)"
    using assms r kv by (simp add: calculateExposureAperturePriority_def Let_def)
  with cs d f g show "\<exists>pre k post. ?cs = pre @ k # post \<and>
              shutterSpeed (calculateExposureAperturePriority b i c v f) = shutter k \<and>
              aperture (calculateExposureAperturePriority b i c v f) = candidate.aperture k \<and>
              evDifference (calculateExposureAperturePriority b i c v f) = js_sub (ev k) (Fin e) \<and>
              (\<exists>y. js_abs (js_sub (ev k) (Fin e)) = Fin y) \<and>
              (\<forall>k'\<in>set pre. js_lt (js_abs (js_sub (ev k) (Fin e)))
                                   (js_abs (js_sub (ev k') (Fin e)))) \<and>
              (\<forall>k'\<in>set post. js_le (js_abs (js_sub (ev k) (Fin e)))
                                    (js_abs (js_sub (ev k') (Fin e))))"
    by blast
next
  assume nf: "\<forall>y. calculateEffectiveEV b' i' c' f' \<noteq> Fin y"
  have s: "scanCandidates (calculateEffectiveEV b' i' c' f')
             (filter (\<lambda>k. js_eq (shutter k) v') shutterApertureEV) None PosInf = None"
    using nf by (intro scan_not_finite [OF filtered_ev_finite]) simp
  have a: "scanCandidates (calculateEffectiveEV b' i' c' f')
             (filter (\<lambda>k. js_eq (candidate.aperture k) v') shutterApertureEV) None PosInf = None"
    using nf by (intro scan_not_finite [OF filtered_ev_finite]) simp
  show "shutterSpeed (calculateExposureShutterPriority b' i' c' v' f') = v'"
    "aperture (calculateExposureShutterPriority b' i' c' v' f') = Fin 0"
    "evDifference (calculateExposureShutterPriority b' i' c' v' f') = Fin 0"
    unfolding calculateExposureShutterPriority_def Let_def s by simp_all
  show "shutterSpeed (calculateExposureAperturePriority b' i' c' v' f') = Fin 0"
    "aperture (calculateExposureAperturePriority b' i' c' v' f') = v'"
    "evDifference (calculateExposureAperturePriority b' i' c' v' f') = Fin 0"
    unfolding calculateExposureAperturePriority_def Let_def a by simp_all
qed

theorem resolver_first_closest_witness:
  "(\<exists>pre k post.
      filter (\<lambda>k. js_eq (shutter k) (js_div (Fin 1) (Fin 125))) shutterApertureEV
        = pre @ k # post \<and>
      shutterSpeed (calculateExposureShutterPriority (Fin 128) (Fin 100) (Fin 0)
                      (js_div (Fin 1) (Fin 125)) (Fin 1)) = shutter k \<and>
      aperture (calculateExposureShutterPriority (Fin 128) (Fin 100) (Fin 0)
                  (js_div (Fin 1) (Fin 125)) (Fin 1)) = candidate.aperture k \<and>
      evDifference (calculateExposureShutterPriority (Fin 128) (Fin 100) (Fin 0)
                      (js_div (Fin 1) (Fin 125)) (Fin 1)) = js_sub (ev k) (Fin 7) \<and>
      (\<exists>y. js_abs (js_sub (ev k) (Fin 7)) = Fin y) \<and>
      (\<forall>k'\<in>set pre. js_lt (js_abs (js_sub (ev k) (Fin 7)))
                           (js_abs (js_sub (ev k') (Fin 7)))) \<and>
      (\<forall>k'\<in>set post. js_le (js_abs (js_sub (ev k) (Fin 7)))
                            (js_abs (js_sub (ev k') (Fin 7))))) \<and>
   (\<exists>pre k post.
      filter (\<lambda>k. js_eq (candidate.aperture k) (lit 2.8)) shutterApertureEV = pre @ k # post \<and>
      shutterSpeed (calculateExposureAperturePriority (Fin 128) (Fin 100) (Fin 0)
                      (lit 2.8) (Fin 1)) = shutter k \<and>
      aperture (calculateExposureAperturePriority (Fin 128) (Fin 100) (Fin 0)
                  (lit 2.8) (Fin 1)) = candidate.aperture k \<and>
      evDifference (calculateExposureAperturePriority (Fin 128) (Fin 100) (Fin 0)
                      (lit 2.8) (Fin 1)) = js_sub (ev k) (Fin 7) \<and>
      (\<exists>y. js_abs (js_sub (ev k) (Fin 7)) = Fin y) \<and>
      (\<forall>k'\<in>set pre. js_lt (js_abs (js_sub (ev k) (Fin 7)))
                           (js_abs (js_sub (ev k') (Fin 7)))) \<and>
      (\<forall>k'\<in>set post. js_le (js_abs (js_sub (ev k) (Fin 7)))
                            (js_abs (js_sub (ev k') (Fin 7))))) \<and>
   shutterSpeed (calculateExposureAperturePriority (Fin 0) (Fin 100) (Fin 0) (lit 2.8) (Fin 1))
     = Fin 0 \<and>
   evDifference (calculateExposureAperturePriority (Fin 0) (Fin 100) (Fin 0) (lit 2.8) (Fin 1))
     = Fin 0"
proof -
  have e: "calculateEffectiveEV (Fin 128) (Fin 100) (Fin 0) (Fin 1) = Fin 7"
    by (rule calculateEffectiveEV_anchor)
  have n: "\<forall>y. calculateEffectiveEV (Fin 0) (Fin 100) (Fin 0) (Fin 1) \<noteq> Fin y"
    by (simp add: calculateEffectiveEV_def)
  show ?thesis
    using resolver_first_closest [OF e, of "js_div (Fin 1) (Fin 125)"]
      resolver_first_closest [OF e, of "lit 2.8" "Fin 0" "Fin 100" "Fin 0" "Fin 1" "lit 2.8"]
      shutter_125_present aperture_2_8_present n
    by blast
qed

text \<open>
  C4, as stated, fails: the brightness 0 (what the sampler returns for a frame that is not
  ready) gives the effective EV \<open>-Infinity\<close>, no candidate is chosen and the shutter speed
  returned is 0, which is not in the list.
\<close>

theorem aperture_priority_zero_shutter:
  "shutterSpeed (calculateExposureAperturePriority (Fin 0) (Fin 100) (Fin 0) (lit 2.8) (Fin 1))
     = Fin 0 \<and>
   Fin 0 \<notin> set standardShutterSpeeds"
proof -
  have ev: "calculateEffectiveEV (Fin 0) (Fin 100) (Fin 0) (Fin 1) = NegInf"
    by (simp add: calculateEffectiveEV_def)
  have sc: "scanCandidates NegInf
              (filter (\<lambda>k. js_eq (candidate.aperture k) (lit 2.8)) shutterApertureEV) None PosInf
            = None"
    by (rule scan_not_finite [OF filtered_ev_finite]) simp
  have "Fin 0 \<notin> set standardShutterSpeeds"
    using standardShutterSpeeds_range [of "Fin 0"] by auto
  moreover have "shutterSpeed (calculateExposureAperturePriority (Fin 0) (Fin 100) (Fin 0)
                    (lit 2.8) (Fin 1)) = Fin 0"
    unfolding calculateExposureAperturePriority_def Let_def ev sc by simp
  ultimately show ?thesis by blast
qed

text \<open>
  C4, amended: for all inputs the aperture-priority resolver called with the chosen
  aperture 2.8 returns the aperture 2.8; the shutter speed it returns is one of the eleven
  values of the list when the effective EV is a finite number, and 0 when it is not. The
  effective EV is a finite number when the brightness and the calibration factor lie
  between \<open>2 ^ -500\<close> and \<open>2 ^ 500\<close>, the ISO value between \<open>2 ^ -1000\<close> and \<open>2 ^ 1000\<close> and
  the compensation between \<open>-2 ^ 1000\<close> and \<open>2 ^ 1000\<close>.
\<close>

theorem aperture_priority_at_2_8:
  "aperture (calculateExposureAperturePriority b i c (lit 2.8) f) = lit 2.8 \<and>
   (if \<exists>e. calculateEffectiveEV b i c f = Fin e
    then shutterSpeed (calculateExposureAperturePriority b i c (lit 2.8) f)
           \<in> set standardShutterSpeeds
    else shutterSpeed (calculateExposureAperturePriority b i c (lit 2.8) f) = Fin 0) \<and>
   (1 / 2 ^ 500 \<le> rb \<and> rb \<le> 2 ^ 500 \<and> 1 / 2 ^ 500 \<le> rf \<and> rf \<le> 2 ^ 500 \<and>
    1 / 2 ^ 1000 \<le> ri \<and> ri \<le> 2 ^ 1000 \<and> \<bar>rc\<bar> \<le> 2 ^ 1000 \<longrightarrow>
      shutterSpeed (calculateExposureAperturePriority (Fin rb) (Fin ri) (Fin rc) (lit 2.8) (Fin rf))
        \<in> set standardShutterSpeeds)"
proof -
  let ?cs = "filter (\<lambda>k. js_eq (candidate.aperture k) (lit 2.8)) shutterApertureEV"
  have fixed: "aperture (calculateExposureAperturePriority b i c (lit 2.8) f) = lit 2.8"
    by (simp add: calculateExposureAperturePriority_def Let_def)
  have found: "shutterSpeed (calculateExposureAperturePriority b i c (lit 2.8) f)
                 \<in> set standardShutterSpeeds"
    if "calculateEffectiveEV b i c f = Fin e" for b i c f e
  proof -
    from calculateEffectiveEV_double [OF that]
    have e: "isDouble e" "\<bar>e\<bar> < 2 ^ 1024" by simp_all
    from scan_closest [OF filtered_ev_finite aperture_2_8_present e]
    obtain pre k post where cs: "?cs = pre @ k # post"
      and r: "scanCandidates (Fin e) ?cs None PosInf = Some k"
      by blast
    have "k \<in> set ?cs" using cs by simp
    then have "shutter k \<in> set standardShutterSpeeds"
      using table_shutter by simp
    then show ?thesis
      using that r by (simp add: calculateExposureAperturePriority_def Let_def)
  qed
  have missed: "shutterSpeed (calculateExposureAperturePriority b i c (lit 2.8) f) = Fin 0"
    if "\<forall>e. calculateEffectiveEV b i c f \<noteq> Fin e"
  proof -
    have "scanCandidates (calculateEffectiveEV b i c f) ?cs None PosInf = None"
      using that by (intro scan_not_finite [OF filtered_ev_finite]) simp
    then show ?thesis
      by (simp add: calculateExposureAperturePriority_def Let_def)
  qed
  have sane: "shutterSpeed
          (calculateExposureAperturePriority (Fin rb) (Fin ri) (Fin rc) (lit 2.8) (Fin rf))
        \<in> set standardShutterSpeeds"
    if "1 / 2 ^ 500 \<le> rb \<and> rb \<le> 2 ^ 500 \<and> 1 / 2 ^ 500 \<le> rf \<and> rf \<le> 2 ^ 500 \<and>
        1 / 2 ^ 1000 \<le> ri \<and> ri \<le> 2 ^ 1000 \<and> \<bar>rc\<bar> \<le> 2 ^ 1000"
  proof -
    have "\<exists>e. calculateEffectiveEV (Fin rb) (Fin ri) (Fin rc) (Fin rf) = Fin e"
      using that by (intro calculateEffectiveEV_finite) blast+
    then show ?thesis using found by blast
  qed
  show ?thesis
    using fixed found missed sane by (cases "\<exists>e. calculateEffectiveEV b i c f = Fin e") auto
qed

theorem aperture_priority_at_2_8_witness:
  "aperture (calculateExposureAperturePriority (Fin 128) (Fin 100) (Fin 0) (lit 2.8) (Fin 1))
     = lit 2.8 \<and>
   shutterSpeed (calculateExposureAperturePriority (Fin 128) (Fin 100) (Fin 0) (lit 2.8) (Fin 1))
     \<in> set standardShutterSpeeds \<and>
   shutterSpeed (calculateExposureAperturePriority NaN (Fin 100) (Fin 0) (lit 2.8) (Fin 1))
     = Fin 0"
proof -
  have r: "1 / 2 ^ 500 \<le> (128::real) \<and> (128::real) \<le> 2 ^ 500 \<and> 1 / 2 ^ 500 \<le> (1::real) \<and>
      (1::real) \<le> 2 ^ 500 \<and> 1 / 2 ^ 1000 \<le> (100::real) \<and> (100::real) \<le> 2 ^ 1000 \<and>
      \<bar>0::real\<bar> \<le> 2 ^ 1000"
    by simp
  have n: "\<not> (\<exists>e. calculateEffectiveEV NaN (Fin 100) (Fin 0) (Fin 1) = Fin e)"
    by (simp add: calculateEffectiveEV_def Let_def)
  show ?thesis
    using aperture_priority_at_2_8
            [where b = "Fin 128" and i = "Fin 100" and c = "Fin 0" and f = "Fin 1"
               and rb = 128 and ri = 100 and rc = 0 and rf = 1]
      aperture_priority_at_2_8
            [where b = NaN and i = "Fin 100" and c = "Fin 0" and f = "Fin 1"
               and rb = 128 and ri = 100 and rc = 0 and rf = 1] r n
    by presburger
qed


section \<open>Properties of the metering tick\<close>

text \<open>Both resolvers return the effective EV they computed.\<close>

lemma resolver_effectiveEV:
  "effectiveEV (calculateExposureAperturePriority b i c v f) = calculateEffectiveEV b i c f"
  "effectiveEV (calculateExposureShutterPriority b i c v f) = calculateEffectiveEV b i c f"
  by (simp_all add: calculateExposureAperturePriority_def calculateExposureShutterPriority_def
      Let_def)

text \<open>What a tick leaves alone.\<close>

lemma meterTick_settings:
  "isoValue (meterTick b s) = isoValue s"
  "compensation (meterTick b s) = compensation s"
  "priorityMode (meterTick b s) = priorityMode s"
  "calibrationFactor (meterTick b s) = calibrationFactor s"
  "smoothingFactor (meterTick b s) = smoothingFactor s"
  "chosenAperture (meterTick b s) = chosenAperture s"
  "chosenShutter (meterTick b s) = chosenShutter s"
  "aeLocked (meterTick b s) = aeLocked s"
  "lockedEVRef (meterTick b s) = lockedEVRef s"
  by (simp_all add: meterTick_def Let_def)

text \<open>What a tick that meters writes.\<close>

lemma meterTick_metered:
  assumes "\<not> js_lt b (Fin 5)" "\<not> js_gt b (Fin 250)"
  shows "smoothedEVRef (meterTick b s) =
           Some (smoothEV (smoothingFactor s) (smoothedEVRef s)
                   (calculateEffectiveEV b (isoValue s) (compensation s) (calibrationFactor s)))"
    and "smoothedEV (exposure (meterTick b s)) =
           smoothEV (smoothingFactor s) (smoothedEVRef s)
             (calculateEffectiveEV b (isoValue s) (compensation s) (calibrationFactor s))"
    and "effectiveEV (exposure (meterTick b s)) =
           (case lockedEVRef s of
              Some locked \<Rightarrow>
                if aeLocked s then locked
                else calculateEffectiveEV b (isoValue s) (compensation s) (calibrationFactor s)
            | None \<Rightarrow> calculateEffectiveEV b (isoValue s) (compensation s) (calibrationFactor s))"
    and "exposureWarning (meterTick b s) =
           exposureWarningFor (evDifference (exposure (meterTick b s)))"
  using assms
  by (simp_all add: meterTick_def Let_def resolver_effectiveEV split: option.splits)

lemma meterTick_locked:
  assumes "aeLocked s" "lockedEVRef s = Some v" "effectiveEV (exposure s) = v"
  shows "aeLocked (meterTick b s) \<and> lockedEVRef (meterTick b s) = Some v \<and>
         effectiveEV (exposure (meterTick b s)) = v"
  using assms by (simp add: meterTick_def Let_def)

lemma meterTicks_locked:
  assumes "aeLocked s" "lockedEVRef s = Some v" "effectiveEV (exposure s) = v"
  shows "aeLocked (meterTicks bs s) \<and> lockedEVRef (meterTicks bs s) = Some v \<and>
         effectiveEV (exposure (meterTicks bs s)) = v"
  using assms
proof (induction bs arbitrary: s)
  case Nil
  then show ?case by simp
next
  case (Cons b bs)
  from meterTick_locked [OF Cons.prems, of b]
  show ?case using Cons.IH [of "meterTick b s"] by simp
qed

lemma meterTicks_settings:
  "isoValue (meterTicks bs s) = isoValue s \<and>
   compensation (meterTicks bs s) = compensation s \<and>
   calibrationFactor (meterTicks bs s) = calibrationFactor s"
  by (induction bs arbitrary: s) (simp_all add: meterTick_settings)

lemma handleAeLock_settings:
  "isoValue (handleAeLock s) = isoValue s"
  "compensation (handleAeLock s) = compensation s"
  "calibrationFactor (handleAeLock s) = calibrationFactor s"
  "exposure (handleAeLock s) = exposure s"
  "smoothedEVRef (handleAeLock s) = smoothedEVRef s"
  by (simp_all add: handleAeLock_def)

text \<open>
  C5, as stated, fails for the number the view renders as the current EV, the field
  \<open>smoothedEV\<close>: with the calibration factor set to 1, a tick at brightness 128 publishes
  the smoothed EV 7; the lock is taken; the next tick, at brightness 64, publishes the
  number 6.9 although the lock is engaged.
\<close>

theorem ae_lock_smoothedEV_moves:
  "aeLocked (handleAeLock (meterTick (Fin 128) (initialApp\<lparr>calibrationFactor := Fin 1\<rparr>))) \<and>
   smoothedEV (exposure (handleAeLock (meterTick (Fin 128)
      (initialApp\<lparr>calibrationFactor := Fin 1\<rparr>)))) = Fin 7 \<and>
   smoothedEV (exposure (meterTick (Fin 64) (handleAeLock (meterTick (Fin 128)
      (initialApp\<lparr>calibrationFactor := Fin 1\<rparr>))))) = lit 6.9 \<and>
   lit 6.9 \<noteq> Fin 7"
proof -
  let ?s0 = "initialApp\<lparr>calibrationFactor := Fin 1\<rparr>"
  have g1: "\<not> js_lt (Fin 128) (Fin 5)" "\<not> js_gt (Fin 128) (Fin 250)"
    and g2: "\<not> js_lt (Fin 64) (Fin 5)" "\<not> js_gt (Fin 64) (Fin 250)"
    by (simp_all add: js_gt_def)
  have e1: "calculateEffectiveEV (Fin 128) (Fin 100) (Fin 0) (Fin 1) = Fin 7"
    by (rule calculateEffectiveEV_anchor)
  have e2: "calculateEffectiveEV (Fin 64) (Fin 100) (Fin 0) (Fin 1) = Fin 6"
    by (rule calculateEffectiveEV_anchor)
  let ?s1 = "meterTick (Fin 128) ?s0"
  have s1: "smoothedEVRef ?s1 = Some (Fin 7)" "smoothedEV (exposure ?s1) = Fin 7"
    using meterTick_metered(1,2) [OF g1, of ?s0] e1
    by (simp_all add: initialApp_def smoothEV_def)
  have cfg: "isoValue ?s1 = Fin 100" "compensation ?s1 = Fin 0" "calibrationFactor ?s1 = Fin 1"
    "smoothingFactor ?s1 = lit 0.1" "\<not> aeLocked ?s1"
    by (simp_all add: meterTick_settings initialApp_def)
  let ?s2 = "handleAeLock ?s1"
  have s2: "aeLocked ?s2" "smoothedEV (exposure ?s2) = Fin 7" "smoothedEVRef ?s2 = Some (Fin 7)"
    "isoValue ?s2 = Fin 100" "compensation ?s2 = Fin 0" "calibrationFactor ?s2 = Fin 1"
    "smoothingFactor ?s2 = lit 0.1"
    using s1 cfg by (simp_all add: handleAeLock_def)
  have "smoothedEV (exposure (meterTick (Fin 64) ?s2)) = lit 6.9"
    using meterTick_metered(2) [OF g2, of ?s2] s2 e2 smooth_7_towards_6
    by (simp add: smoothEV_def)
  moreover have "lit 6.9 \<noteq> Fin 7"
    by (simp add: lit_6_9)
  ultimately show ?thesis using s2 by simp
qed

text \<open>
  C5, amended: while the AE lock is engaged, the field \<open>effectiveEV\<close> of the published
  reading is pinned to the value that field had when the lock was taken, whatever the
  number of ticks and their samples; the field \<open>smoothedEV\<close> keeps following the live
  samples through the smoother. After an explicit unlock the lock flag is off, and the
  next tick that meters (brightness from 5 to 250) publishes the live effective EV again.
\<close>

theorem ae_lock_pins_effectiveEV:
  assumes "\<not> aeLocked s"
  shows "aeLocked (meterTicks bs (handleAeLock s)) \<and>
         effectiveEV (exposure (meterTicks bs (handleAeLock s))) = effectiveEV (exposure s) \<and>
         \<not> aeLocked (handleAeLock (meterTicks bs (handleAeLock s))) \<and>
         (\<not> js_lt b (Fin 5) \<and> \<not> js_gt b (Fin 250) \<longrightarrow>
            effectiveEV (exposure (meterTick b (handleAeLock (meterTicks bs (handleAeLock s))))) =
              calculateEffectiveEV b (isoValue s) (compensation s) (calibrationFactor s) \<and>
            smoothedEV (exposure (meterTick b (handleAeLock s))) =
              smoothEV (smoothingFactor s) (smoothedEVRef s)
                (calculateEffectiveEV b (isoValue s) (compensation s) (calibrationFactor s)))"
proof -
  let ?s1 = "handleAeLock s"
  have l: "aeLocked ?s1" "lockedEVRef ?s1 = Some (effectiveEV (exposure s))"
    "effectiveEV (exposure ?s1) = effectiveEV (exposure s)"
    using assms by (simp_all add: handleAeLock_def)
  note pinned = meterTicks_locked [OF l, of bs]
  let ?s2 = "handleAeLock (meterTicks bs ?s1)"
  have u: "\<not> aeLocked ?s2" "lockedEVRef ?s2 = None"
    using pinned by (simp_all add: handleAeLock_def)
  have cfg: "isoValue ?s2 = isoValue s" "compensation ?s2 = compensation s"
    "calibrationFactor ?s2 = calibrationFactor s"
    by (simp_all add: handleAeLock_settings meterTicks_settings)
  have live: "effectiveEV (exposure (meterTick b ?s2)) =
              calculateEffectiveEV b (isoValue s) (compensation s) (calibrationFactor s)"
    if "\<not> js_lt b (Fin 5)" "\<not> js_gt b (Fin 250)"
    using meterTick_metered(3) [OF that, of ?s2] u cfg by simp
  have sm: "smoothedEV (exposure (meterTick b ?s1)) =
              smoothEV (smoothingFactor s) (smoothedEVRef s)
                (calculateEffectiveEV b (isoValue s) (compensation s) (calibrationFactor s))"
    if "\<not> js_lt b (Fin 5)" "\<not> js_gt b (Fin 250)"
    using meterTick_metered(2) [OF that, of ?s1] by (simp add: handleAeLock_def)
  show ?thesis
    using pinned u live sm by simp
qed

theorem ae_lock_pins_effectiveEV_witness:
  "aeLocked (meterTicks [Fin 10, Fin 20, Fin 30, Fin 40, Fin 50, Fin 60, Fin 70, Fin 80,
                         Fin 90, Fin 100] (handleAeLock initialApp)) \<and>
   effectiveEV (exposure (meterTicks [Fin 10, Fin 20, Fin 30, Fin 40, Fin 50, Fin 60, Fin 70,
                                      Fin 80, Fin 90, Fin 100] (handleAeLock initialApp))) =
     Fin 0 \<and>
   effectiveEV (exposure (meterTick (Fin 128) (handleAeLock
      (meterTicks [Fin 10, Fin 20, Fin 30, Fin 40, Fin 50, Fin 60, Fin 70, Fin 80, Fin 90,
                   Fin 100] (handleAeLock initialApp))))) =
     calculateEffectiveEV (Fin 128) (Fin 100) (Fin 0) (lit 0.85)"
proof -
  have unlocked: "\<not> aeLocked initialApp"
    by (simp add: initialApp_def)
  have gate: "\<not> js_lt (Fin 128) (Fin 5) \<and> \<not> js_gt (Fin 128) (Fin 250)"
    by (simp add: js_gt_def)
  have start: "effectiveEV (exposure initialApp) = Fin 0" "isoValue initialApp = Fin 100"
    "compensation initialApp = Fin 0" "calibrationFactor initialApp = lit 0.85"
    by (simp_all add: initialApp_def)
  show ?thesis
    using ae_lock_pins_effectiveEV [OF unlocked,
        of "[Fin 10, Fin 20, Fin 30, Fin 40, Fin 50, Fin 60, Fin 70, Fin 80, Fin 90, Fin 100]"
           "Fin 128"]
      gate
    unfolding start by blast
qed

section \<open>Properties of the exposure classifier\<close>

text \<open>
  The four thresholds the code writes as \<open>-0.6\<close>, \<open>-0.3\<close>, \<open>0.3\<close> and \<open>0.6\<close> are the
  binary64 numbers nearest to these decimals; they lie in this order between -1 and 1.
\<close>

lemma threshold_values:
  "lit (- 0.6) = Fin (nearest (- 0.6))" "lit (- 0.3) = Fin (nearest (- 0.3))"
  "lit 0.3 = Fin (nearest 0.3)" "lit 0.6 = Fin (nearest 0.6)"
  using rnd_in_dyadic [of "- 5" 3 "- 0.6" "- 4"] rnd_in_dyadic [of "- 3" 3 "- 0.3" "- 2"]
    rnd_in_dyadic [of 2 3 "0.3" 3] rnd_in_dyadic [of 4 3 "0.6" 5]
  by (simp_all add: lit_def)

lemma threshold_bounds:
  "- 5 / 8 \<le> nearest (- 0.6)" "nearest (- 0.6) \<le> - 1 / 2"
  "- 3 / 8 \<le> nearest (- 0.3)" "nearest (- 0.3) \<le> - 1 / 4"
  "1 / 4 \<le> nearest 0.3" "nearest 0.3 \<le> 3 / 8"
  "1 / 2 \<le> nearest 0.6" "nearest 0.6 \<le> 5 / 8"
  using rnd_in_dyadic [of "- 5" 3 "- 0.6" "- 4"] rnd_in_dyadic [of "- 3" 3 "- 0.3" "- 2"]
    rnd_in_dyadic [of 2 3 "0.3" 3] rnd_in_dyadic [of 4 3 "0.6" 5]
  by simp_all

lemma threshold_close:
  "\<bar>nearest (- 0.6) - (- 0.6)\<bar> \<le> 1 / 2 ^ 54" "\<bar>nearest (- 0.3) - (- 0.3)\<bar> \<le> 1 / 2 ^ 54"
  "\<bar>nearest 0.3 - 0.3\<bar> \<le> 1 / 2 ^ 54" "\<bar>nearest 0.6 - 0.6\<bar> \<le> 1 / 2 ^ 54"
  using nearest_err [of "- 0.6" 0] nearest_err [of "- 0.3" 0] nearest_err [of "0.3" 0]
    nearest_err [of "0.6" 0]
  by simp_all

text \<open>
  C7: the warning chosen for an \<open>evDifference\<close> follows the seven bands with the
  thresholds 0.3, 0.6 and 1, the lower bands closed above and the upper bands closed
  below; the empty text is the balanced band. The thresholds 0.3 and 0.6 are the numbers
  these literals denote in the code, the binary64 values nearest to them (within
  \<open>2 ^ -54\<close> of the decimals); the values \<open>-0.6\<close>, \<open>-0.3\<close>, \<open>0.3\<close> and \<open>0.6\<close> themselves fall
  in the moderate, slight, slight and moderate bands. \<open>-Infinity\<close> is in the lowest band,
  \<open>Infinity\<close> in the highest, and \<open>NaN\<close> gives no warning. A tick that meters sets its
  warning from the \<open>evDifference\<close> it publishes.
\<close>

theorem exposureWarningFor_bands:
  "(d \<le> - 1 \<longrightarrow> exposureWarningFor (Fin d) =
      ''Severely underexposed, increase aperture or ISO significantly.'') \<and>
   (- 1 < d \<and> d \<le> nearest (- 0.6) \<longrightarrow> exposureWarningFor (Fin d) =
      ''Moderately underexposed, consider increasing aperture or ISO.'') \<and>
   (nearest (- 0.6) < d \<and> d \<le> nearest (- 0.3) \<longrightarrow> exposureWarningFor (Fin d) =
      ''Slightly underexposed, fine-tune settings.'') \<and>
   (nearest (- 0.3) < d \<and> d < nearest 0.3 \<longrightarrow> exposureWarningFor (Fin d) = []) \<and>
   (nearest 0.3 \<le> d \<and> d < nearest 0.6 \<longrightarrow> exposureWarningFor (Fin d) =
      ''Slightly overexposed, fine-tune settings.'') \<and>
   (nearest 0.6 \<le> d \<and> d < 1 \<longrightarrow> exposureWarningFor (Fin d) =
      ''Moderately overexposed, consider reducing aperture or ISO.'') \<and>
   (1 \<le> d \<longrightarrow> exposureWarningFor (Fin d) =
      ''Severely overexposed, reduce aperture or ISO significantly.'') \<and>
   exposureWarningFor (lit (- 0.6)) =
      ''Moderately underexposed, consider increasing aperture or ISO.'' \<and>
   exposureWarningFor (lit (- 0.3)) = ''Slightly underexposed, fine-tune settings.'' \<and>
   exposureWarningFor (lit 0.3) = ''Slightly overexposed, fine-tune settings.'' \<and>
   exposureWarningFor (lit 0.6) =
      ''Moderately overexposed, consider reducing aperture or ISO.'' \<and>
   \<bar>nearest (- 0.6) - (- 0.6)\<bar> \<le> 1 / 2 ^ 54 \<and> \<bar>nearest (- 0.3) - (- 0.3)\<bar> \<le> 1 / 2 ^ 54 \<and>
   \<bar>nearest 0.3 - 0.3\<bar> \<le> 1 / 2 ^ 54 \<and> \<bar>nearest 0.6 - 0.6\<bar> \<le> 1 / 2 ^ 54 \<and>
   exposureWarningFor NegInf =
      ''Severely underexposed, increase aperture or ISO significantly.'' \<and>
   exposureWarningFor PosInf =
      ''Severely overexposed, reduce aperture or ISO significantly.'' \<and>
   exposureWarningFor NaN = [] \<and>
   (\<not> js_lt b (Fin 5) \<and> \<not> js_gt b (Fin 250) \<longrightarrow>
      exposureWarning (meterTick b s) =
        exposureWarningFor (evDifference (exposure (meterTick b s))))"
proof -
  have tick: "exposureWarning (meterTick b s) =
        exposureWarningFor (evDifference (exposure (meterTick b s)))"
    if "\<not> js_lt b (Fin 5)" "\<not> js_gt b (Fin 250)"
    using meterTick_metered(4) [OF that] .
  have bands: "(d \<le> - 1 \<longrightarrow> exposureWarningFor (Fin d) =
      ''Severely underexposed, increase aperture or ISO significantly.'') \<and>
   (- 1 < d \<and> d \<le> nearest (- 0.6) \<longrightarrow> exposureWarningFor (Fin d) =
      ''Moderately underexposed, consider increasing aperture or ISO.'') \<and>
   (nearest (- 0.6) < d \<and> d \<le> nearest (- 0.3) \<longrightarrow> exposureWarningFor (Fin d) =
      ''Slightly underexposed, fine-tune settings.'') \<and>
   (nearest (- 0.3) < d \<and> d < nearest 0.3 \<longrightarrow> exposureWarningFor (Fin d) = []) \<and>
   (nearest 0.3 \<le> d \<and> d < nearest 0.6 \<longrightarrow> exposureWarningFor (Fin d) =
      ''Slightly overexposed, fine-tune settings.'') \<and>
   (nearest 0.6 \<le> d \<and> d < 1 \<longrightarrow> exposureWarningFor (Fin d) =
      ''Moderately overexposed, consider reducing aperture or ISO.'') \<and>
   (1 \<le> d \<longrightarrow> exposureWarningFor (Fin d) =
      ''Severely overexposed, reduce aperture or ISO significantly.'')" for d
    unfolding exposureWarningFor_def threshold_values
    using threshold_bounds by (simp add: js_ge_def)
  have lits: "exposureWarningFor (lit (- 0.6)) =
      ''Moderately underexposed, consider increasing aperture or ISO.''"
    "exposureWarningFor (lit (- 0.3)) = ''Slightly underexposed, fine-tune settings.''"
    "exposureWarningFor (lit 0.3) = ''Slightly overexposed, fine-tune settings.''"
    "exposureWarningFor (lit 0.6) =
      ''Moderately overexposed, consider reducing aperture or ISO.''"
    using bands [of "nearest (- 0.6)"] bands [of "nearest (- 0.3)"] bands [of "nearest 0.3"]
      bands [of "nearest 0.6"] threshold_bounds
    unfolding threshold_values by simp_all
  have inf: "exposureWarningFor NegInf =
      ''Severely underexposed, increase aperture or ISO significantly.''"
    "exposureWarningFor PosInf =
      ''Severely overexposed, reduce aperture or ISO significantly.''"
    "exposureWarningFor NaN = []"
    unfolding exposureWarningFor_def threshold_values by (simp_all add: js_ge_def)
  have t: "\<not> js_lt b (Fin 5) \<and> \<not> js_gt b (Fin 250) \<longrightarrow>
      exposureWarning (meterTick b s) =
        exposureWarningFor (evDifference (exposure (meterTick b s)))"
    using tick by (intro impI) (elim conjE)
  show ?thesis
    by (intro conjI conjunct1 [OF bands] t lits threshold_close inf)
      (intro conjunct1 [OF conjunct2 [OF bands]]
         conjunct1 [OF conjunct2 [OF conjunct2 [OF bands]]]
         conjunct1 [OF conjunct2 [OF conjunct2 [OF conjunct2 [OF bands]]]]
         conjunct1 [OF conjunct2 [OF conjunct2 [OF conjunct2 [OF conjunct2 [OF bands]]]]]
         conjunct1 [OF conjunct2 [OF conjunct2 [OF conjunct2 [OF conjunct2
           [OF conjunct2 [OF bands]]]]]]
         conjunct2 [OF conjunct2 [OF conjunct2 [OF conjunct2 [OF conjunct2
           [OF conjunct2 [OF bands]]]]]])+
qed

theorem exposureWarningFor_bands_witness:
  "exposureWarningFor (Fin (- 1)) =
      ''Severely underexposed, increase aperture or ISO significantly.'' \<and>
   exposureWarningFor (Fin (- 3 / 4)) =
      ''Moderately underexposed, consider increasing aperture or ISO.'' \<and>
   exposureWarningFor (Fin (- 7 / 16)) = ''Slightly underexposed, fine-tune settings.'' \<and>
   exposureWarningFor (Fin 0) = [] \<and>
   exposureWarningFor (Fin (7 / 16)) = ''Slightly overexposed, fine-tune settings.'' \<and>
   exposureWarningFor (Fin (3 / 4)) =
      ''Moderately overexposed, consider reducing aperture or ISO.'' \<and>
   exposureWarningFor (Fin 1) =
      ''Severely overexposed, reduce aperture or ISO significantly.'' \<and>
   exposureWarningFor (lit (- 0.6)) =
      ''Moderately underexposed, consider increasing aperture or ISO.'' \<and>
   exposureWarning (meterTick (Fin 128) initialApp) =
      exposureWarningFor (evDifference (exposure (meterTick (Fin 128) initialApp)))"
proof -
  have g: "\<not> js_lt (Fin 128) (Fin 5) \<and> \<not> js_gt (Fin 128) (Fin 250)"
    by (simp add: js_gt_def)
  have o: "(- 1::real) \<le> - 1" "- 1 < (- 3 / 4::real) \<and> (- 3 / 4::real) \<le> nearest (- 0.6)"
    "nearest (- 0.6) < (- 7 / 16::real) \<and> (- 7 / 16::real) \<le> nearest (- 0.3)"
    "nearest (- 0.3) < (0::real) \<and> (0::real) < nearest 0.3"
    "nearest 0.3 \<le> (7 / 16::real) \<and> (7 / 16::real) < nearest 0.6"
    "nearest 0.6 \<le> (3 / 4::real) \<and> (3 / 4::real) < 1" "(1::real) \<le> 1"
    using threshold_bounds by simp_all
  have w1: "exposureWarningFor (Fin (- 1)) =
      ''Severely underexposed, increase aperture or ISO significantly.''"
    using conjunct1 [OF exposureWarningFor_bands [of "- 1"]] o(1) by simp
  have w2: "exposureWarningFor (Fin (- 3 / 4)) =
      ''Moderately underexposed, consider increasing aperture or ISO.''"
    using conjunct1 [OF conjunct2 [OF exposureWarningFor_bands [of "- 3 / 4"]]] o(2) by simp
  have w3: "exposureWarningFor (Fin (- 7 / 16)) = ''Slightly underexposed, fine-tune settings.''"
    using conjunct1 [OF conjunct2 [OF conjunct2 [OF exposureWarningFor_bands [of "- 7 / 16"]]]] o(3) by simp
  have w4: "exposureWarningFor (Fin 0) = []"
    using conjunct1 [OF conjunct2 [OF conjunct2 [OF conjunct2 [OF exposureWarningFor_bands [of 0]]]]] o(4) by simp
  have w5: "exposureWarningFor (Fin (7 / 16)) = ''Slightly overexposed, fine-tune settings.''"
    using conjunct1 [OF conjunct2 [OF conjunct2 [OF conjunct2 [OF conjunct2 [OF exposureWarningFor_bands [of "7 / 16"]]]]]] o(5) by simp
  have w6: "exposureWarningFor (Fin (3 / 4)) =
      ''Moderately overexposed, consider reducing aperture or ISO.''"
    using conjunct1 [OF conjunct2 [OF conjunct2 [OF conjunct2 [OF conjunct2 [OF conjunct2 [OF exposureWarningFor_bands [of "3 / 4"]]]]]]] o(6) by simp
  have w7: "exposureWarningFor (Fin 1) =
      ''Severely overexposed, reduce aperture or ISO significantly.'' \<and>
   exposureWarningFor (lit (- 0.6)) =
      ''Moderately underexposed, consider increasing aperture or ISO.'' \<and>
   exposureWarning (meterTick (Fin 128) initialApp) =
      exposureWarningFor (evDifference (exposure (meterTick (Fin 128) initialApp)))"
  proof -
    note r = conjunct2 [OF conjunct2 [OF conjunct2 [OF conjunct2 [OF conjunct2 [OF conjunct2
      [OF exposureWarningFor_bands [of 1 "Fin 128" initialApp]]]]]]]
    have "exposureWarningFor (Fin 1) =
      ''Severely overexposed, reduce aperture or ISO significantly.''"
      using conjunct1 [OF r] by simp
    moreover have "exposureWarningFor (lit (- 0.6)) =
      ''Moderately underexposed, consider increasing aperture or ISO.''"
      by (rule conjunct1 [OF conjunct2 [OF r]])
    moreover have "exposureWarning (meterTick (Fin 128) initialApp) =
      exposureWarningFor (evDifference (exposure (meterTick (Fin 128) initialApp)))"
      using r g by (elim conjE) simp
    ultimately show ?thesis by (intro conjI)
  qed
  show ?thesis
    by (intro conjI w1 w2 w3 w4 w5 w6 conjunct1 [OF w7] conjunct1 [OF conjunct2 [OF w7]]
        conjunct2 [OF conjunct2 [OF w7]])
qed


section \<open>Properties of the histogram engine\<close>

text \<open>A rounded number that is not negative is \<open>Infinity\<close> or a finite number that is not negative.\<close>

lemma rnd_nonneg:
  assumes "0 \<le> x"
  shows "rnd x = PosInf \<or> (\<exists>t\<ge>0. rnd x = Fin t)"
proof (cases "2 ^ 1024 \<le> \<bar>nearest x\<bar>")
  case True
  have "x \<noteq> 0"
  proof
    assume "x = 0"
    then have "\<bar>nearest x\<bar> = 0" by simp
    with True have "(2::real) ^ 1024 \<le> 0" by (simp only:)
    then show False by simp
  qed
  then have "0 < x" using assms by simp
  then show ?thesis using True by (simp add: rnd_def js_inf_def)
next
  case False
  then show ?thesis
    using nearest_nonneg [OF assms] by (simp add: rnd_def)
qed

lemma js_pow2_cases: "js_pow2 (Fin c) = PosInf \<or> (\<exists>g\<ge>0. js_pow2 (Fin c) = Fin g)"
  using rnd_nonneg [of "2 powr c"] by simp

text \<open>
  \<open>Math.pow(2, c)\<close> is finite up to \<open>c = 1023\<close> and \<open>Infinity\<close> from \<open>c = 1024\<close> on; up to
  \<open>c = -9\<close> it is at most \<open>1 / 512\<close>.
\<close>

lemma js_pow2_finite:
  assumes "c \<le> 1023"
  shows "js_pow2 (Fin c) \<noteq> PosInf"
proof -
  have "2 powr c \<le> 2 powr 1023"
    using assms by (intro powr_mono) simp_all
  also have "2 powr 1023 = (2::real) ^ 1023"
    using powr_realpow [of 2 1023] by simp
  finally have u: "2 powr c \<le> (2::real) ^ 1023" .
  have "1 / 2 ^ 1074 \<le> (0::real) \<or> True" by simp
  have l: "real_of_int 0 \<le> 2 powr c" by simp
  have d: "isDouble (real_of_int 0)" "isDouble (2 ^ 1023)"
    using isDouble_int [of 0] isDouble_scaled [of 1 1023] by simp_all
  have "(2::real) ^ 1023 < 2 ^ 1024"
    by (intro power_strict_increasing) simp_all
  moreover have "\<bar>(2::real) ^ 1023\<bar> = 2 ^ 1023"
    by (rule abs_of_pos) simp
  ultimately have h: "\<bar>(2::real) ^ 1023\<bar> < 2 ^ 1024"
    by (simp only:)
  have z: "\<bar>real_of_int 0\<bar> < 2 ^ 1024" by simp
  from rnd_between [OF l u d z h]
  show ?thesis by auto
qed

lemma js_pow2_overflow:
  assumes "1024 \<le> c"
  shows "js_pow2 (Fin c) = PosInf"
proof -
  have "2 powr 1024 \<le> 2 powr c"
    using assms by (intro powr_mono) simp_all
  moreover have "2 powr 1024 = (2::real) ^ 1024"
    using powr_realpow [of 2 1024] by simp
  ultimately have "(2::real) ^ 1024 \<le> 2 powr c"
    by (simp only:)
  then show ?thesis
    unfolding js_pow2.simps by (rule rnd_overflow)
qed

lemma js_pow2_small:
  assumes "c \<le> - 9"
  shows "\<exists>g. js_pow2 (Fin c) = Fin g \<and> 0 \<le> g \<and> g \<le> 1 / 512"
proof -
  have "2 powr c \<le> 2 powr (- 9)"
    using assms by (simp add: powr_mono)
  also have "2 powr (- 9) = (1 / 512 :: real)"
    by (simp add: powr_minus_divide)
  finally have "2 powr c \<le> real_of_int 1 / 2 ^ 9" by simp
  moreover have "real_of_int 0 / 2 ^ 9 \<le> 2 powr c" by simp
  ultimately show ?thesis
    using rnd_in_dyadic [of 0 9 "2 powr c" 1] by auto
qed

text \<open>
  A channel byte and the floored luma are whole numbers from 0 to 255: the three weights
  are at most \<open>307 / 1024\<close>, \<open>602 / 1024\<close> and \<open>117 / 1024\<close>, so the rounded sum stays
  below 256.
\<close>

lemma channel_range: "\<exists>k\<le>255. channel w = Fin (real k)"
proof -
  have "unat w < 2 ^ LENGTH(8)" by (rule unsigned_less)
  then have "unat w \<le> 255" by simp
  then show ?thesis unfolding channel_def by blast
qed

lemma weight_range:
  "\<exists>a. lit 0.299 = Fin a \<and> 0 \<le> a \<and> a \<le> 307 / 1024"
  "\<exists>a. lit 0.587 = Fin a \<and> 0 \<le> a \<and> a \<le> 602 / 1024"
  "\<exists>a. lit 0.114 = Fin a \<and> 0 \<le> a \<and> a \<le> 117 / 1024"
  using rnd_in_dyadic [of 0 10 "0.299" 307] rnd_in_dyadic [of 0 10 "0.587" 602]
    rnd_in_dyadic [of 0 10 "0.114" 117]
  by (auto simp add: lit_def)

lemma weighted_channel:
  assumes "0 \<le> a" "a \<le> real_of_int w / 1024" "k \<le> 255" "0 \<le> w" "w \<le> 1024"
  shows "\<exists>t. js_mul (Fin a) (Fin (real k)) = Fin t \<and> 0 \<le> t \<and> t \<le> real_of_int (w * 255) / 1024"
proof -
  have "a * real k \<le> real_of_int w / 1024 * 255"
    using assms by (intro mult_mono) simp_all
  then have "a * real k \<le> real_of_int (w * 255) / 2 ^ 10" by simp
  moreover have "real_of_int 0 / 2 ^ 10 \<le> a * real k"
    using assms(1) by simp
  moreover have "\<bar>w * 255\<bar> \<le> 2 ^ 53"
    using assms(4,5) by simp
  ultimately show ?thesis
    using rnd_in_dyadic [of 0 10 "a * real k" "w * 255"] by auto
qed

lemma brightnessOf_range: "\<exists>k\<le>255. brightnessOf p = Fin (real k)"
proof -
  obtain r g b a where p: "p = (r, g, b, a)" by (cases p) auto
  obtain kr where kr: "kr \<le> 255" "channel r = Fin (real kr)" using channel_range by blast
  obtain kg where kg: "kg \<le> 255" "channel g = Fin (real kg)" using channel_range by blast
  obtain kb where kb: "kb \<le> 255" "channel b = Fin (real kb)" using channel_range by blast
  from weight_range obtain a1 a2 a3 where
    a1: "lit 0.299 = Fin a1" "0 \<le> a1" "a1 \<le> real_of_int 307 / 1024" and
    a2: "lit 0.587 = Fin a2" "0 \<le> a2" "a2 \<le> real_of_int 602 / 1024" and
    a3: "lit 0.114 = Fin a3" "0 \<le> a3" "a3 \<le> real_of_int 117 / 1024"
    by auto
  from weighted_channel [OF a1(2,3) kr(1)]
  obtain t1 where t1: "js_mul (Fin a1) (Fin (real kr)) = Fin t1" "0 \<le> t1" "t1 \<le> 78285 / 1024"
    by auto
  from weighted_channel [OF a2(2,3) kg(1)]
  obtain t2 where t2: "js_mul (Fin a2) (Fin (real kg)) = Fin t2" "0 \<le> t2" "t2 \<le> 153510 / 1024"
    by auto
  from weighted_channel [OF a3(2,3) kb(1)]
  obtain t3 where t3: "js_mul (Fin a3) (Fin (real kb)) = Fin t3" "0 \<le> t3" "t3 \<le> 29835 / 1024"
    by auto
  have "real_of_int 0 / 2 ^ 10 \<le> t1 + t2" "t1 + t2 \<le> real_of_int 231795 / 2 ^ 10"
    using t1(2,3) t2(2,3) by simp_all
  from rnd_in_dyadic [OF this]
  obtain u where u: "rnd (t1 + t2) = Fin u" "0 \<le> u" "u \<le> 231795 / 1024"
    by auto
  have "real_of_int 0 / 2 ^ 10 \<le> u + t3" "u + t3 \<le> real_of_int 261630 / 2 ^ 10"
    using u(2,3) t3(2,3) by simp_all
  from rnd_in_dyadic [OF this]
  obtain v where v: "rnd (u + t3) = Fin v" "0 \<le> v" "v \<le> 261630 / 1024"
    by auto
  have eq: "brightnessOf p = Fin (of_int \<lfloor>v\<rfloor>)"
    using p kr(2) kg(2) kb(2) a1(1) a2(1) a3(1) t1(1) t2(1) t3(1) u(1) v(1)
    by (simp add: brightnessOf_def)
  have "0 \<le> \<lfloor>v\<rfloor>" "\<lfloor>v\<rfloor> \<le> 255"
    using v(2,3) by (simp_all add: floor_le_iff le_floor_iff)
  then have "nat \<lfloor>v\<rfloor> \<le> 255" "real (nat \<lfloor>v\<rfloor>) = of_int \<lfloor>v\<rfloor>"
    by linarith+
  then show ?thesis using eq by metis
qed

text \<open>
  The mid-gray pixel: the rounded sum \<open>0.299 * 128 + 0.587 * 128 + 0.114 * 128\<close> is the
  number next below 128, and its floor is 127.
\<close>

lemma brightnessOf_mid_gray: "brightnessOf (128, 128, 128, 255) = Fin 127"
proof -
  have "nearest (299 / 1000) = of_int 5386305154335113 * 2 powi (- 2 - 52)"
    by (rule nearest_eval) simp_all
  then have "nearest (299 / 1000) = 5386305154335113 / 2 ^ 54" by simp
  then have a1: "lit 0.299 = Fin (5386305154335113 / 2 ^ 54)"
    unfolding lit_def using rnd_small [of "299 / 1000"] by simp
  have "nearest (587 / 1000) = of_int 5287225962532962 * 2 powi (- 1 - 52)"
    by (rule nearest_eval) simp_all
  then have "nearest (587 / 1000) = 5287225962532962 / 2 ^ 53" by simp
  then have a2: "lit 0.587 = Fin (5287225962532962 / 2 ^ 53)"
    unfolding lit_def using rnd_small [of "587 / 1000"] by simp
  have "nearest (114 / 1000) = of_int 8214565720323785 * 2 powi (- 4 - 52)"
    by (rule nearest_eval) simp_all
  then have "nearest (114 / 1000) = 8214565720323785 / 2 ^ 56" by simp
  then have a3: "lit 0.114 = Fin (8214565720323785 / 2 ^ 56)"
    unfolding lit_def using rnd_small [of "114 / 1000"] by simp
  have t1: "rnd (5386305154335113 / 2 ^ 54 * 128) = Fin (5386305154335113 / 2 ^ 47)"
    using rnd_dyadic [of 5386305154335113 47] by simp
  have t2: "rnd (5287225962532962 / 2 ^ 53 * 128) = Fin (5287225962532962 / 2 ^ 46)"
    using rnd_dyadic [of 5287225962532962 46] by simp
  have t3: "rnd (8214565720323785 / 2 ^ 56 * 128) = Fin (8214565720323785 / 2 ^ 49)"
    using rnd_dyadic [of 8214565720323785 49] by simp
  have "nearest (5386305154335113 / 2 ^ 47 + 5287225962532962 / 2 ^ 46) =
          of_int (if even (7980378539700518::int) then 7980378539700518 else 7980378539700518 + 1)
            * 2 powi (6 - 52)"
    by (rule nearest_tie) simp_all
  then have "nearest (5386305154335113 / 2 ^ 47 + 5287225962532962 / 2 ^ 46) =
          7980378539700518 / 2 ^ 46"
    by simp
  then have u: "rnd (5386305154335113 / 2 ^ 47 + 5287225962532962 / 2 ^ 46) =
          Fin (7980378539700518 / 2 ^ 46)"
    using rnd_small [of "5386305154335113 / 2 ^ 47 + 5287225962532962 / 2 ^ 46"] by simp
  have "nearest (7980378539700518 / 2 ^ 46 + 8214565720323785 / 2 ^ 49) =
          of_int 9007199254740991 * 2 powi (6 - 52)"
    by (rule nearest_eval) simp_all
  then have "nearest (7980378539700518 / 2 ^ 46 + 8214565720323785 / 2 ^ 49) =
          9007199254740991 / 2 ^ 46"
    by simp
  then have v: "rnd (7980378539700518 / 2 ^ 46 + 8214565720323785 / 2 ^ 49) =
          Fin (9007199254740991 / 2 ^ 46)"
    using rnd_small [of "7980378539700518 / 2 ^ 46 + 8214565720323785 / 2 ^ 49"] by simp
  have f: "\<lfloor>9007199254740991 / 2 ^ 46 :: real\<rfloor> = 127"
    by (simp add: floor_eq_iff)
  show ?thesis
    unfolding brightnessOf_def channel_def a1 a2 a3
    using t1 t2 t3 u v f by simp
qed

text \<open>
  The adjusted brightness: with the luma \<open>k\<close> and the gain \<open>Math.pow(2, c)\<close>, it is \<open>NaN\<close>
  when the gain is \<open>Infinity\<close> and the luma 0, and a whole number from 0 to 255 otherwise.
\<close>

lemma adjustedBrightness_NaN:
  assumes "brightnessOf p = Fin 0" "js_pow2 (Fin c) = PosInf"
  shows "adjustedBrightness (Fin c) p = NaN"
  using assms by (simp add: adjustedBrightness_def)

lemma adjustedBrightness_range:
  assumes "js_pow2 (Fin c) \<noteq> PosInf \<or> brightnessOf p \<noteq> Fin 0"
  shows "\<exists>j\<le>255. adjustedBrightness (Fin c) p = Fin (real j)"
proof -
  obtain k where k: "k \<le> 255" "brightnessOf p = Fin (real k)"
    using brightnessOf_range by blast
  have top: "\<exists>j\<le>255. Fin 255 = Fin (real j)"
    by (intro exI [of _ 255]) simp
  have whole: "\<exists>j\<le>255. js_min (js_round (Fin t)) (Fin 255) = Fin (real j)" if "0 \<le> t" for t
  proof -
    let ?m = "\<lfloor>t + 1 / 2\<rfloor>"
    have m0: "0 \<le> ?m" using that by (simp add: le_floor_iff)
    have eq: "js_min (js_round (Fin t)) (Fin 255) = (if ?m \<le> 255 then Fin (of_int ?m) else Fin 255)"
      by simp
    show ?thesis
    proof (cases "?m \<le> 255")
      case True
      then have "nat ?m \<le> 255" "real (nat ?m) = of_int ?m" using m0 by linarith+
      then show ?thesis using eq True by metis
    next
      case False
      then show ?thesis using eq top by simp
    qed
  qed
  from js_pow2_cases [of c] show ?thesis
  proof (elim disjE exE conjE)
    assume inf: "js_pow2 (Fin c) = PosInf"
    with assms k have "k \<noteq> 0" by auto
    then have "adjustedBrightness (Fin c) p = Fin 255"
      using inf k by (simp add: adjustedBrightness_def js_inf_def)
    then show ?thesis using top by simp
  next
    fix g assume g: "0 \<le> g" "js_pow2 (Fin c) = Fin g"
    have "0 \<le> real k * g" using g(1) by simp
    from rnd_nonneg [OF this] show ?thesis
    proof (elim disjE exE conjE)
      assume "rnd (real k * g) = PosInf"
      then have "adjustedBrightness (Fin c) p = Fin 255"
        using g k by (simp add: adjustedBrightness_def)
      then show ?thesis using top by simp
    next
      fix t assume t: "0 \<le> t" "rnd (real k * g) = Fin t"
      have "adjustedBrightness (Fin c) p = js_min (js_round (Fin t)) (Fin 255)"
        using g k t by (simp add: adjustedBrightness_def)
      then show ?thesis using whole [OF t(1)] by simp
    qed
  qed
qed

text \<open>An increment inside the array adds one to the total and keeps the length.\<close>

lemma incrementBin_in_range:
  assumes "j < length h"
  shows "incrementBin h (Fin (real j)) = h[j := Suc (h ! j)]"
  using assms by (simp add: incrementBin_def)






text \<open>The black pixel has the luma 0.\<close>

lemma brightnessOf_black: "brightnessOf (0, 0, 0, 255) = Fin 0"
proof -
  from weight_range obtain a1 a2 a3 where
    "lit 0.299 = Fin a1" "lit 0.587 = Fin a2" "lit 0.114 = Fin a3"
    by auto
  then show ?thesis
    by (simp add: brightnessOf_def channel_def)
qed




text \<open>
  C10, as stated, fails: the compensation 1024 is finite, yet \<open>Math.pow(2, 1024)\<close> is
  \<open>Infinity\<close> and the black pixel gets the index \<open>Math.min(Math.round(0 * Infinity), 255)\<close>,
  which is \<open>NaN\<close> and no index of the array; the increment leaves the 256 bins as they are.
\<close>

theorem adjustedBrightness_NaN_at_overflow:
  "adjustedBrightness (Fin 1024) (0, 0, 0, 255) = NaN \<and>
   incrementBin (replicate 256 0) (adjustedBrightness (Fin 1024) (0, 0, 0, 255)) =
     replicate 256 0"
proof -
  have "js_pow2 (Fin 1024) = PosInf"
    by (rule js_pow2_overflow) simp
  with brightnessOf_black have "adjustedBrightness (Fin 1024) (0, 0, 0, 255) = NaN"
    by (rule adjustedBrightness_NaN)
  then show ?thesis by (simp add: incrementBin_def)
qed

text \<open>
  C10, amended: for every 8-bit pixel and every finite compensation \<open>c\<close>, the adjusted
  brightness is a whole number \<open>j\<close> from 0 to 255, and the increment on a 256-slot array
  the update of slot \<open>j\<close>, unless the gain \<open>Math.pow(2, c)\<close> is \<open>Infinity\<close> and the luma of
  the pixel is 0; in that case it is \<open>NaN\<close> and the increment changes no bin. The gain is
  finite up to \<open>c = 1023\<close> and \<open>Infinity\<close> from \<open>c = 1024\<close> on. From the compensation \<open>-9\<close>
  downwards the index is 0. The luma of the mid-gray pixel (128, 128, 128) is 127.
\<close>

theorem adjustedBrightness_in_bounds:
  "(js_pow2 (Fin c) \<noteq> PosInf \<or> brightnessOf p \<noteq> Fin 0 \<longrightarrow>
      (\<exists>j\<le>255. adjustedBrightness (Fin c) p = Fin (real j) \<and>
         (length h = 256 \<longrightarrow>
            incrementBin h (adjustedBrightness (Fin c) p) = h[j := Suc (h ! j)]))) \<and>
   (js_pow2 (Fin c) = PosInf \<and> brightnessOf p = Fin 0 \<longrightarrow>
      adjustedBrightness (Fin c) p = NaN \<and>
      incrementBin h (adjustedBrightness (Fin c) p) = h) \<and>
   (c \<le> 1023 \<longrightarrow> js_pow2 (Fin c) \<noteq> PosInf) \<and>
   (1024 \<le> c \<longrightarrow> js_pow2 (Fin c) = PosInf) \<and>
   (c \<le> - 9 \<longrightarrow> adjustedBrightness (Fin c) p = Fin 0) \<and>
   brightnessOf (128, 128, 128, 255) = Fin 127"
proof (intro conjI impI)
  assume ok: "js_pow2 (Fin c) \<noteq> PosInf \<or> brightnessOf p \<noteq> Fin 0"
  obtain j where j: "j \<le> 255" "adjustedBrightness (Fin c) p = Fin (real j)"
    using adjustedBrightness_range [OF ok] by blast
  have "incrementBin h (adjustedBrightness (Fin c) p) = h[j := Suc (h ! j)]"
    if "length h = 256"
    using j that by (simp add: incrementBin_in_range)
  with j show "\<exists>j\<le>255. adjustedBrightness (Fin c) p = Fin (real j) \<and>
       (length h = 256 \<longrightarrow>
          incrementBin h (adjustedBrightness (Fin c) p) = h[j := Suc (h ! j)])"
    by blast
next
  assume "js_pow2 (Fin c) = PosInf \<and> brightnessOf p = Fin 0"
  then show "adjustedBrightness (Fin c) p = NaN"
    by (intro adjustedBrightness_NaN) simp_all
  then show "incrementBin h (adjustedBrightness (Fin c) p) = h"
    by (simp add: incrementBin_def)
next
  assume "c \<le> 1023"
  then show "js_pow2 (Fin c) \<noteq> PosInf" by (rule js_pow2_finite)
next
  assume "1024 \<le> c"
  then show "js_pow2 (Fin c) = PosInf" by (rule js_pow2_overflow)
next
  assume c: "c \<le> - 9"
  obtain k where k: "k \<le> 255" "brightnessOf p = Fin (real k)"
    using brightnessOf_range by blast
  from js_pow2_small [OF c]
  obtain g where g: "js_pow2 (Fin c) = Fin g" "0 \<le> g" "g \<le> 1 / 512" by blast
  have "real k * g \<le> 255 * (1 / 512)"
    using k(1) g(2,3) by (intro mult_mono) simp_all
  then have "real k * g \<le> real_of_int 255 / 2 ^ 9" by simp
  moreover have "real_of_int 0 / 2 ^ 9 \<le> real k * g" using g(2) by simp
  ultimately obtain t where t: "rnd (real k * g) = Fin t" "0 \<le> t" "t \<le> 255 / 512"
    using rnd_in_dyadic [of 0 9 "real k * g" 255] by auto
  have "t + 1 / 2 < 1" "0 \<le> t + 1 / 2" using t(2,3) by simp_all
  then have "\<lfloor>t + 1 / 2\<rfloor> = 0"
    by (simp add: floor_eq_iff)
  then show "adjustedBrightness (Fin c) p = Fin 0"
    using k g(1) t(1) by (simp add: adjustedBrightness_def)
next
  show "brightnessOf (128, 128, 128, 255) = Fin 127"
    by (rule brightnessOf_mid_gray)
qed

theorem adjustedBrightness_in_bounds_witness:
  "(\<exists>j\<le>255. adjustedBrightness (Fin (- 10)) (200, 100, 50, 255) = Fin (real j) \<and>
       incrementBin (replicate 256 0) (adjustedBrightness (Fin (- 10)) (200, 100, 50, 255)) =
         (replicate 256 0)[j := Suc (replicate 256 0 ! j)]) \<and>
   adjustedBrightness (Fin (- 10)) (200, 100, 50, 255) = Fin 0 \<and>
   js_pow2 (Fin (- 10)) \<noteq> PosInf \<and>
   js_pow2 (Fin 1024) = PosInf \<and>
   adjustedBrightness (Fin 1024) (0, 0, 0, 255) = NaN"
proof -
  have len: "length (replicate 256 (0::nat)) = 256" by simp
  have low: "(- 10 :: real) \<le> - 9" "(- 10 :: real) \<le> 1023" "(1024 :: real) \<le> 1024" by simp_all
  note a = adjustedBrightness_in_bounds [of "- 10" "(200, 100, 50, 255)" "replicate 256 0"]
  note b = adjustedBrightness_in_bounds [of 1024 "(0, 0, 0, 255)" "replicate 256 0"]
  show ?thesis
    using a b len low brightnessOf_black by blast
qed


section \<open>Properties of the zone overlay\<close>

text \<open>The pass over the boundaries sets the flag when a boundary exceeds 255, and only then.\<close>

lemma clampBoundaries_flag:
  "snd (clampBoundaries bs clipped) = (clipped \<or> (\<exists>b\<in>set bs. js_gt b (Fin 255)))"
  by (induction bs arbitrary: clipped) (simp_all add: case_prod_beta)

lemma clampBoundaries_values:
  "fst (clampBoundaries bs clipped) = map (\<lambda>b. if js_gt b (Fin 255) then Fin 255 else b) bs"
  by (induction bs arbitrary: clipped) (simp_all add: case_prod_beta)

text \<open>Powers of two within the range of the format are kept by the rounding.\<close>

lemma rnd_powi:
  assumes "- 1074 \<le> n" "n \<le> 1023"
  shows "rnd (2 powi n) = Fin (2 powi n)"
proof -
  have d: "isDouble (2 powi n)"
    unfolding isDouble_def using assms(1) by (intro exI [of _ 1] exI [of _ n]) simp
  have "(2::real) powi n < 2 powi 1024"
    using assms(2) by (intro power_int_strict_increasing) simp_all
  moreover have "(2::real) powi 1024 = 2 ^ 1024"
    by (simp only: power_int_numeral) 
  moreover have "\<bar>(2::real) powi n\<bar> = 2 powi n"
    by (rule abs_of_pos) simp
  ultimately have "\<bar>(2::real) powi n\<bar> < 2 ^ 1024"
    by (simp only:)
  with d show ?thesis by (rule rnd_double)
qed

lemma boundaryOf_whole_zone:
  assumes "- 1000 \<le> z" "z \<le> 1000"
  shows "boundaryOf (Fin (of_int z)) = Fin (128 * 2 powr (of_int z - 5))"
proof -
  have a: "rnd (real_of_int z + - 5) = Fin (real_of_int (z - 5))"
    using rnd_of_int [of "z - 5"] assms by simp
  have p: "2 powr real_of_int (z - 5) = (2::real) powi (z - 5)"
    by (metis powr_real_of_int' zero_less_numeral less_numeral_extra(3) zero_le_numeral)
  have b: "rnd (2 powi (z - 5)) = Fin (2 powi (z - 5))"
    using assms by (intro rnd_powi) simp_all
  have "(2::real) powi (7 + (z - 5)) = 2 powi 7 * 2 powi (z - 5)"
    by (rule power_int_add) simp
  moreover have "7 + (z - 5) = z + 2" by simp
  ultimately have m: "128 * (2::real) powi (z - 5) = 2 powi (z + 2)"
    by simp
  have c: "rnd (2 powi (z + 2)) = Fin (2 powi (z + 2))"
    using assms by (intro rnd_powi) simp_all
  have s1: "js_sub (Fin (of_int z)) (Fin 5) = Fin (real_of_int (z - 5))"
    unfolding js_sub_def js_neg.simps js_add.simps by (rule a)
  have s2: "js_pow2 (Fin (real_of_int (z - 5))) = Fin (2 powi (z - 5))"
    unfolding js_pow2.simps p by (rule b)
  have s3: "js_mul (Fin 128) (Fin (2 powi (z - 5))) = Fin (128 * 2 powi (z - 5))"
    unfolding js_mul.simps m by (rule c)
  have "boundaryOf (Fin (of_int z)) = Fin (128 * 2 powi (z - 5))"
    unfolding boundaryOf_def referenceGray_def s1 s2 s3 ..
  then show ?thesis using p by simp
qed

text \<open>
  C9: the boundary of a whole zone \<open>z\<close> is \<open>128 * 2 ^ (z - 5)\<close>, the reference gray being
  128 (for whole zones from -1000 to 1000 the power and the product are exact); the flag
  \<open>clipped\<close> comes out true exactly when some computed boundary exceeds 255. The zones 2
  to 7 give 16, 32, 64, 128, 256 and 512: the zone 7 boundary 512 exceeds 255 and the flag
  is true, the zone 5 boundary 128 does not exceed 255.
\<close>

theorem zone_overlay_clipped:
  "snd (clampBoundaries bs False) = (\<exists>b\<in>set bs. js_gt b (Fin 255)) \<and>
   (- 1000 \<le> z \<and> z \<le> 1000 \<longrightarrow>
      boundaryOf (Fin (of_int z)) = Fin (128 * 2 powr (of_int z - 5))) \<and>
   computedBoundaries = [Fin 16, Fin 32, Fin 64, Fin 128, Fin 256, Fin 512] \<and>
   boundaryOf (Fin 7) = Fin 512 \<and> js_gt (boundaryOf (Fin 7)) (Fin 255) \<and>
   boundaryOf (Fin 5) = Fin 128 \<and> \<not> js_gt (boundaryOf (Fin 5)) (Fin 255) \<and>
   zoneOverlay = ([Fin 16, Fin 32, Fin 64, Fin 128, Fin 255, Fin 255], True)"
proof -
  have b: "boundaryOf (Fin 2) = Fin 16" "boundaryOf (Fin 3) = Fin 32" "boundaryOf (Fin 4) = Fin 64"
    "boundaryOf (Fin 5) = Fin 128" "boundaryOf (Fin 6) = Fin 256" "boundaryOf (Fin 7) = Fin 512"
    using boundaryOf_whole_zone [of 2] boundaryOf_whole_zone [of 3] boundaryOf_whole_zone [of 4]
      boundaryOf_whole_zone [of 5] boundaryOf_whole_zone [of 6] boundaryOf_whole_zone [of 7]
    by (simp_all add: powr_minus_divide)
  have cb: "computedBoundaries = [Fin 16, Fin 32, Fin 64, Fin 128, Fin 256, Fin 512]"
    by (simp add: computedBoundaries_def zoneNumbers_def b)
  have zo: "zoneOverlay = ([Fin 16, Fin 32, Fin 64, Fin 128, Fin 255, Fin 255], True)"
    by (simp add: zoneOverlay_def cb js_gt_def)
  show ?thesis
    using b cb zo boundaryOf_whole_zone [of z] by (simp add: clampBoundaries_flag js_gt_def)
qed

theorem zone_overlay_clipped_witness:
  "snd (clampBoundaries [Fin 128, Fin 512] False) \<and>
   \<not> snd (clampBoundaries [Fin 128] False) \<and>
   boundaryOf (Fin 7) = Fin 512 \<and>
   boundaryOf (Fin (of_int 8)) = Fin (128 * 2 powr (of_int 8 - 5))"
proof -
  have r: "- 1000 \<le> (8::int) \<and> (8::int) \<le> 1000" by simp
  show ?thesis
    using zone_overlay_clipped [of "[Fin 128, Fin 512]" 8] zone_overlay_clipped [of "[Fin 128]" 8] r
    by (simp add: js_gt_def)
qed


end
